theory Spec2Isabelle
  imports Complex_Main "HOL-Library.Word"
begin

section \<open>Cloglog ordinal BART: the sampling driver of \<open>CloglogOrdinalBARTModel\<close>\<close>

text \<open>
  The development follows \<open>src/stochtree/cloglog_ordinal_bart.py\<close>.  The Python method
  \<open>sample\<close> validates its inputs, computes the retained iteration indices, creates the
  sample containers and the auxiliary data series, and then runs the sampling loop; the
  method \<open>predict\<close> refuses to run on a model that was not sampled.

  Exceptions are values, the attributes of \<open>self\<close> are a record, and every call into the
  compiled samplers is written to a trace in the order in which the source makes it.

  The classes and the compiled samplers the driver calls (\<open>Dataset\<close>, \<open>ForestSampler\<close>,
  \<open>OrdinalSamplerCpp\<close>, \<open>CovariatePreprocessor\<close>, \<open>RNG\<close>) are not under \<open>src/\<close>.  They are
  parameters of the development or are modelled as the specification words them.  Those that
  are called inside the loop are total functions here: a run in which one of them raises is
  outside of what the theorems about completed runs describe.
\<close>

subsection \<open>Exceptions and inputs\<close>

datatype exn =
    ValueError string
  | TypeError string
  | ZeroDivisionError
  | IndexError
  | RuntimeError string
  | NotSampledError string
  | AttributeError

text \<open>
  A covariate argument is a pandas data frame (rows, columns), a numpy array of one or two
  dimensions, or some other object.  Only its kind and shape are read by the driver; its
  contents are seen by the preprocessor and the forest only.
\<close>

datatype covariates = DataFrame nat nat | Ndarray1 nat | Ndarray2 nat nat | NotTabular

text \<open>
  The outcome argument is a numpy array (a vector; the source expands a one-dimensional
  array to a column) or some other object.  The elements of an array of type \<open>int32\<close> or
  \<open>int64\<close> are machine integers of that width, read as signed numbers; an array of another
  element type is only ever rejected, so its content is left out.
\<close>

datatype elements = Int32 "32 word list" | Int64 "64 word list" | OtherDtype

datatype outcome = Ndarray elements | NotNdarray

fun ints :: "elements \<Rightarrow> int list" where
  "ints (Int32 ws) = map sint ws"
| "ints (Int64 ws) = map sint ws"
| "ints OtherDtype = []"

fun bits :: "elements \<Rightarrow> nat" where
  "bits (Int32 ws) = 32"
| "bits (Int64 ws) = 64"
| "bits OtherDtype = 64"

record args =
  X_train :: covariates
  y_train :: outcome
  X_test :: "covariates option"
  n_trees :: int
  num_gfr :: int
  num_burnin :: int
  num_mcmc :: int
  n_thin :: int
  alpha_gamma :: real
  beta_gamma :: real
  variable_weights :: "real list option"
  seed :: "int option"
  num_threads :: int

fun is_tabular :: "covariates \<Rightarrow> bool" where
  "is_tabular NotTabular = False"
| "is_tabular _ = True"

text \<open>The shape after \<open>np.expand_dims(X, 1)\<close> has been applied to a one-dimensional array.\<close>

fun shape :: "covariates \<Rightarrow> nat \<times> nat" where
  "shape (DataFrame r c) = (r, c)"
| "shape (Ndarray1 n) = (n, 1)"
| "shape (Ndarray2 r c) = (r, c)"
| "shape NotTabular = (0, 0)"

text \<open>Lines 88--123: the checks of the data inputs, in the order of the source.\<close>

definition data_checks :: "args \<Rightarrow> exn + int list" where
  "data_checks a =
     (if \<not> is_tabular (X_train a) then
        Inl (ValueError ''X_train must be a pandas dataframe or numpy array'')
      else if (case X_test a of None \<Rightarrow> False | Some X \<Rightarrow> \<not> is_tabular X) then
        Inl (ValueError ''X_test must be a pandas dataframe or numpy array'')
      else
        (case y_train a of
           NotNdarray \<Rightarrow> Inl (ValueError ''y_train must be a numpy array'')
         | Ndarray el \<Rightarrow>
             if el = OtherDtype then
               Inl (ValueError ''y_train must be an integer-valued numpy array'')
             else if list_ex (\<lambda>v. v < 0) (ints el) then
               Inl (ValueError ''y_train must be non-negative integer-valued'')
             else if (case X_test a of None \<Rightarrow> False
                      | Some X \<Rightarrow> snd (shape X) \<noteq> snd (shape (X_train a))) then
               Inl (ValueError ''X_train and X_test must have the same number of columns'')
             else if length (ints el) \<noteq> fst (shape (X_train a)) then
               Inl (ValueError ''X_train and y_train must have the same number of rows'')
             else Inr (ints el)))"

text \<open>
  Lines 125--133: the default weights are \<open>np.repeat(1.0 / p, p)\<close>, which divides by the
  Python integer \<open>p\<close>; given weights must not be negative.
\<close>

definition weight_checks :: "args \<Rightarrow> exn + unit" where
  "weight_checks a =
     (case variable_weights a of
        None \<Rightarrow> if snd (shape (X_train a)) = 0 then Inl ZeroDivisionError else Inr ()
      | Some w \<Rightarrow>
          if list_ex (\<lambda>x. x < 0) w then
            Inl (ValueError ''variable_weights cannot have any negative weights'')
          else Inr ())"

text \<open>
  Lines 166--171: the number of outcome categories is the largest outcome value plus one.
  \<open>np.max\<close> of an empty array raises; otherwise it returns a number of the element type of
  the array, and adding 1 to it stays in that type: the sum is reduced to the signed numbers
  of \<open>w\<close> bits, so the largest number of the type plus one is the smallest.
\<close>

definition wrap :: "nat \<Rightarrow> int \<Rightarrow> int" where
  "wrap w x = (x + 2 ^ (w - 1)) mod 2 ^ w - 2 ^ (w - 1)"

definition outcome_levels :: "nat \<Rightarrow> int list \<Rightarrow> exn + int" where
  "outcome_levels w vs =
     (if vs = [] then
        Inl (ValueError ''zero-size array to reduction operation maximum which has no identity'')
      else Inr (wrap w (Max (set vs) + 1)))"

definition element_bits :: "outcome \<Rightarrow> nat" where
  "element_bits y = (case y of Ndarray el \<Rightarrow> bits el | NotNdarray \<Rightarrow> 64)"

definition check_levels :: "int \<Rightarrow> exn + unit" where
  "check_levels K =
     (if K < 2 then Inl (ValueError ''y_train must have at least 2 outcome categories'')
      else Inr ())"

text \<open>
  Lines 184--188: \<open>np.arange(start, stop, step)\<close> on Python integers has
  \<open>ceil((stop - start) / step)\<close> elements (none when that is not positive) and raises for a
  zero step.
\<close>

definition arange :: "int \<Rightarrow> int \<Rightarrow> int \<Rightarrow> exn + int list" where
  "arange start stop step =
     (if step = 0 then Inl ZeroDivisionError
      else Inr (map (\<lambda>j. start + int j * step) [0..<nat (- ((start - stop) div step))]))"

definition keep_indices :: "args \<Rightarrow> exn + int list" where
  "keep_indices a =
     arange (num_gfr a + num_burnin a) (num_gfr a + num_burnin a + num_mcmc a) (n_thin a)"

subsection \<open>The auxiliary data series of the training dataset\<close>

text \<open>
  Modelled from the spec: the class \<open>Dataset\<close> (\<open>add_auxiliary_dimension\<close>,
  \<open>set_auxiliary_data_value\<close>, \<open>get_auxiliary_data_array\<close>) is not under \<open>src/\<close>.
  The spec describes parallel arrays addressed by a series index and an element index,
  read and written by index, with all slots zero at the start.  A series is the list of
  its slots; a new series holds zeros; a write to a slot of a series replaces that slot.

  The spec says nothing about a write whose index is not a slot of the series, and the
  compiled store does not check the index.  What such a write leaves in the slots is
  therefore not fixed here: it is the function \<open>stray\<close>, a parameter (\<open>stray_write\<close> of the
  externals below), which gives the new content of slot \<open>j\<close> of series \<open>k\<close>.  The number of
  series and their sizes change only by \<open>add_auxiliary_dimension\<close>.
\<close>

type_synonym series = "real list"
type_synonym dataset = "series list"
type_synonym stray = "nat \<Rightarrow> int \<Rightarrow> real \<Rightarrow> dataset \<Rightarrow> nat \<Rightarrow> nat \<Rightarrow> real"

definition add_auxiliary_dimension :: "nat \<Rightarrow> dataset \<Rightarrow> dataset" where
  "add_auxiliary_dimension n d = d @ [replicate n 0]"

definition aux_size :: "dataset \<Rightarrow> nat \<Rightarrow> nat" where
  "aux_size d ser = (if ser < length d then length (d ! ser) else 0)"

definition is_slot :: "dataset \<Rightarrow> nat \<Rightarrow> int \<Rightarrow> bool" where
  "is_slot d ser i \<longleftrightarrow> ser < length d \<and> 0 \<le> i \<and> i < int (aux_size d ser)"

definition set_auxiliary_data_value ::
  "stray \<Rightarrow> nat \<Rightarrow> int \<Rightarrow> real \<Rightarrow> dataset \<Rightarrow> dataset" where
  "set_auxiliary_data_value stray ser i v d =
     (if is_slot d ser i then d[ser := (d ! ser)[nat i := v]]
      else map (\<lambda>k. map (stray ser i v d k) [0..<length (d ! k)]) [0..<length d])"

text \<open>The content of a slot, as the compiled samplers read it (they read slots only).\<close>

definition aux_cell :: "dataset \<Rightarrow> nat \<Rightarrow> int \<Rightarrow> real" where
  "aux_cell d ser i = (if is_slot d ser i then d ! ser ! nat i else 0)"

definition get_auxiliary_data_array :: "nat \<Rightarrow> dataset \<Rightarrow> real list" where
  "get_auxiliary_data_array ser d = (if ser < length d then d ! ser else [])"

text \<open>Overwriting all slots of a series, as the compiled samplers do.\<close>

definition install_series :: "nat \<Rightarrow> (int \<Rightarrow> real) \<Rightarrow> dataset \<Rightarrow> dataset" where
  "install_series ser f d =
     (if ser < length d then d[ser := map (\<lambda>j. f (int j)) [0..<length (d ! ser)]] else d)"

subsection \<open>The compiled collaborators\<close>

datatype which_data = Train | Test

text \<open>
  The calls the driver makes into the auxiliary store and the samplers, with the arguments
  the claims are about.  \<open>SampleOneIteration k g t\<close> is a call of
  \<open>forest_sampler.sample_one_iteration\<close> whose eighth, ninth and tenth positional
  arguments are \<open>k\<close>, \<open>g\<close> and \<open>t\<close>.
\<close>

datatype event =
    AddAuxiliaryDimension nat
  | SetAuxiliaryDataValue nat int real
  | UpdateCumulativeExpSums
  | SampleOneIteration bool bool int
  | Predict which_data
  | UpdateLatentVariables
  | UpdateGammaParams real real real
  | GetAuxiliaryDataArray nat

text \<open>
  The code these functions stand for is not under \<open>src/\<close>; each is a parameter.  \<open>'f\<close> is
  the type of forests and \<open>'r\<close> the state of the C++ random number generator.
  \<^item> \<open>stray_write\<close>: what a write outside the slots of a series leaves in the slots;
  \<^item> \<open>transform\<close>: the covariate preprocessor fitted on its first argument and applied to
    its second: an exception, or the shape of the processed covariates;
  \<^item> \<open>seeded_rng\<close>: the generator \<open>RNG(seed)\<close> makes from a seed, or the exception of
    the compiled constructor for a seed it does not take;
  \<^item> \<open>new_forest\<close>: the active forest of \<open>n_trees\<close> trees with root leaves \<open>0.0\<close>;
  \<^item> \<open>forest_update\<close>: what \<open>sample_one_iteration\<close> does to the active forest and the
    generator, given its three last arguments, the outcome and the training dataset;
  \<^item> \<open>predict_row\<close>: the prediction of a forest for one row of the training or test set;
  \<^item> \<open>uniform\<close>: a uniform variate from the generator, and the generator after it;
  \<^item> \<open>gamma_posterior\<close>: the draw of the cutpoint series from its conditional posterior,
    which the spec leaves open;
  \<^item> \<open>container_predict\<close>: the prediction of the retained forests on new covariates.
\<close>

record ('f, 'r) externals =
  stray_write :: stray
  transform :: "covariates \<Rightarrow> covariates \<Rightarrow> exn + nat \<times> nat"
  seeded_rng :: "int \<Rightarrow> exn + 'r"
  new_forest :: "int \<Rightarrow> 'f"
  forest_update :: "bool \<Rightarrow> bool \<Rightarrow> int \<Rightarrow> int list \<Rightarrow> 'f \<Rightarrow> dataset \<Rightarrow> 'r \<Rightarrow> 'f \<times> 'r"
  predict_row :: "'f \<Rightarrow> which_data \<Rightarrow> nat \<Rightarrow> real"
  uniform :: "'r \<Rightarrow> real \<times> 'r"
  gamma_posterior :: "real \<Rightarrow> real \<Rightarrow> real \<Rightarrow> int list \<Rightarrow> dataset \<Rightarrow> 'r \<Rightarrow> (int \<Rightarrow> real) \<times> 'r"
  container_predict :: "'f list \<Rightarrow> covariates \<Rightarrow> exn + real list list"

text \<open>
  Lines 201--207.  Without a seed the source asks for \<open>RNG(-1)\<close>, the generator seeded from
  the machine's entropy; \<open>entropy\<close> is the generator state that gives.
\<close>

definition RNG :: "('f, 'r) externals \<Rightarrow> 'r \<Rightarrow> int \<Rightarrow> exn + 'r" where
  "RNG ext entropy s = (if s = - 1 then Inr entropy else seeded_rng ext s)"

subsection \<open>The ordinal augmentation sampler\<close>

text \<open>
  Modelled from the spec: \<open>OrdinalSamplerCpp\<close> is not under \<open>src/\<close>.  Series 0 holds the
  latent variables, series 1 the forest predictions, series 2 the log-scale cutpoints and
  series 3 the cumulative sums: its element \<open>i\<close> is the sum of \<open>exp (gamma j)\<close> over
  \<open>j < i\<close> (lines 245--250 of the source say the same).
\<close>

definition cumulative_exp_sum :: "(int \<Rightarrow> real) \<Rightarrow> nat \<Rightarrow> real" where
  "cumulative_exp_sum g i = sum_list (map (\<lambda>j. exp (g (int j))) [0..<i])"

definition update_cumulative_exp_sums :: "dataset \<Rightarrow> dataset" where
  "update_cumulative_exp_sums d =
     install_series 3 (\<lambda>i. cumulative_exp_sum (aux_cell d 2) (nat i)) d"

text \<open>
  Modelled from the spec: the latent variable of an observation with category \<open>k\<close> and
  forest prediction \<open>lam\<close> is drawn from the unit-rate exponential distribution truncated to
  \<open>(c k * exp lam, c (k + 1) * exp lam]\<close>, with no upper end for the last category, by
  inverting the distribution function at a uniform variate.  The update fails for a
  category outside \<open>[0, K - 1]\<close> and for an empty interval.
\<close>

definition trunc_exp_draw :: "real \<Rightarrow> real option \<Rightarrow> real \<Rightarrow> real" where
  "trunc_exp_draw lo hi u =
     (case hi of
        None \<Rightarrow> lo - ln (1 - u)
      | Some b \<Rightarrow> - ln (exp (- lo) - u * (exp (- lo) - exp (- b))))"

definition latent_draw ::
  "('f, 'r) externals \<Rightarrow> dataset \<Rightarrow> nat \<Rightarrow> int \<Rightarrow> 'r \<Rightarrow> exn + real \<times> 'r" where
  "latent_draw ext d i y r =
     (if y < 0 \<or> int (aux_size d 3) \<le> y then
        Inl (RuntimeError ''outcome category outside [0, K-1]'')
      else
        (let lam = aux_cell d 1 (int i);
             lo = aux_cell d 3 y * exp lam;
             hi = (if y + 1 = int (aux_size d 3) then None
                   else Some (aux_cell d 3 (y + 1) * exp lam))
         in if (case hi of None \<Rightarrow> False | Some b \<Rightarrow> b \<le> lo) then
              Inl (RuntimeError ''empty truncation interval'')
            else Inr (trunc_exp_draw lo hi (fst (uniform ext r)), snd (uniform ext r))))"

fun update_latent_variables ::
  "('f, 'r) externals \<Rightarrow> (nat \<times> int) list \<Rightarrow> dataset \<Rightarrow> 'r \<Rightarrow> exn + dataset \<times> 'r" where
  "update_latent_variables ext [] d r = Inr (d, r)"
| "update_latent_variables ext ((i, y) # rest) d r =
     (case latent_draw ext d i y r of
        Inl e \<Rightarrow> Inl e
      | Inr zr \<Rightarrow>
          update_latent_variables ext rest
            (set_auxiliary_data_value (stray_write ext) 0 (int i) (fst zr) d) (snd zr))"

text \<open>
  Modelled from the spec: the cutpoint update draws the cutpoints from their conditional
  posterior and stores them in series 2; it writes no other series.
\<close>

definition update_gamma_params ::
  "('f, 'r) externals \<Rightarrow> real \<Rightarrow> real \<Rightarrow> real \<Rightarrow> int list \<Rightarrow> dataset \<Rightarrow> 'r \<Rightarrow> dataset \<times> 'r" where
  "update_gamma_params ext al be g0 vs d r =
     (install_series 2 (fst (gamma_posterior ext al be g0 vs d r)) d,
      snd (gamma_posterior ext al be g0 vs d r))"

subsection \<open>The model object and the state of a run\<close>

text \<open>
  A sample container is a matrix with one column per retained draw; \<open>np.empty\<close> leaves a
  column without content (\<open>None\<close>) until the loop assigns it.
\<close>

type_synonym container = "real list option list"

text \<open>
  The attributes of \<open>self\<close>.  \<open>__init__\<close> sets \<open>sampled\<close> only; an attribute that was never
  assigned is \<open>None\<close>.  \<open>self_num_gfr\<close>, \<open>self_num_burnin\<close> and \<open>self_num_mcmc\<close> are the
  attributes \<open>num_gfr\<close>, \<open>num_burnin\<close> and \<open>num_mcmc\<close>.
\<close>

record 'f model =
  sampled :: bool
  covariate_preprocessor :: "covariates option"
  has_test :: "bool option"
  n_train :: "nat option"
  n_test :: "nat option"
  num_covariates :: "nat option"
  n_levels :: "int option"
  self_num_gfr :: "int option"
  self_num_burnin :: "int option"
  self_num_mcmc :: "int option"
  forest_pred_train :: "container option"
  forest_pred_test :: "container option"
  gamma_samples :: "container option"
  latent_samples :: "container option"
  forest_samples :: "'f list option"

definition init_model :: "'f model" where
  "init_model =
     \<lparr>sampled = False, covariate_preprocessor = None, has_test = None, n_train = None,
      n_test = None, num_covariates = None, n_levels = None, self_num_gfr = None,
      self_num_burnin = None, self_num_mcmc = None, forest_pred_train = None,
      forest_pred_test = None, gamma_samples = None, latent_samples = None,
      forest_samples = None\<rparr>"

text \<open>
  What the loop reads and does not change: the outcome vector, the retained indices and the
  number of test rows (\<open>None\<close> when no test set was given).
\<close>

record locals =
  outcome_train :: "int list"
  keep_idx :: "int list"
  test_rows :: "nat option"

text \<open>
  What the loop changes: the trace of calls, the auxiliary series of the training dataset,
  the active forest, the generator, the counter of retained draws, and the objects the
  attributes \<open>forest_pred_train\<close>, \<open>forest_pred_test\<close>, \<open>gamma_samples\<close>,
  \<open>latent_samples\<close> and \<open>forest_samples\<close> refer to.
\<close>

record ('f, 'r) sampler =
  trace :: "event list"
  forest_dataset_train :: dataset
  active_forest :: 'f
  cpp_rng :: 'r
  sample_counter :: int
  train_columns :: container
  test_columns :: container
  gamma_columns :: container
  latent_columns :: container
  snapshots :: "'f list"

definition publish :: "locals \<Rightarrow> ('f, 'r) sampler \<Rightarrow> 'f model \<Rightarrow> 'f model" where
  "publish loc s m =
     m\<lparr>forest_pred_train := Some (train_columns s),
       forest_pred_test :=
         (case test_rows loc of None \<Rightarrow> forest_pred_test m | Some _ \<Rightarrow> Some (test_columns s)),
       gamma_samples := Some (gamma_columns s),
       latent_samples := Some (latent_columns s),
       forest_samples := Some (snapshots s)\<rparr>"

text \<open>The result of a call of \<open>sample\<close>: the exception or not, \<open>self\<close> afterwards, and the trace.\<close>

datatype 'f outcome_of_call = Raised exn "'f model" "event list" | Completed "'f model" "event list"

definition seq :: "'e + 's \<Rightarrow> ('s \<Rightarrow> 'e + 't) \<Rightarrow> 'e + 't" where
  "seq r f = (case r of Inl e \<Rightarrow> Inl e | Inr s \<Rightarrow> f s)"

subsection \<open>Setting up the auxiliary series (lines 239--267)\<close>

definition logged :: "event \<Rightarrow> ('f, 'r) sampler \<Rightarrow> ('f, 'r) sampler" where
  "logged ev s = s\<lparr>trace := trace s @ [ev]\<rparr>"

definition add_aux :: "nat \<Rightarrow> ('f, 'r) sampler \<Rightarrow> ('f, 'r) sampler" where
  "add_aux n s =
     logged (AddAuxiliaryDimension n)
       (s\<lparr>forest_dataset_train := add_auxiliary_dimension n (forest_dataset_train s)\<rparr>)"

definition set_aux ::
  "('f, 'r) externals \<Rightarrow> nat \<Rightarrow> int \<Rightarrow> real \<Rightarrow> ('f, 'r) sampler \<Rightarrow> ('f, 'r) sampler" where
  "set_aux ext ser i v s =
     logged (SetAuxiliaryDataValue ser i v)
       (s\<lparr>forest_dataset_train :=
            set_auxiliary_data_value (stray_write ext) ser i v (forest_dataset_train s)\<rparr>)"

definition cumsum_step :: "('f, 'r) sampler \<Rightarrow> ('f, 'r) sampler" where
  "cumsum_step s =
     logged UpdateCumulativeExpSums
       (s\<lparr>forest_dataset_train := update_cumulative_exp_sums (forest_dataset_train s)\<rparr>)"

text \<open>
  \<open>initial_gamma\<close> is \<open>np.zeros\<close>; the loop over \<open>range(n_levels - 1)\<close> writes
  \<open>initial_gamma[i]\<close> at element \<open>i - 1\<close> of series 2 (line 255).
\<close>

definition init_aux ::
  "('f, 'r) externals \<Rightarrow> nat \<Rightarrow> int \<Rightarrow> ('f, 'r) sampler \<Rightarrow> ('f, 'r) sampler" where
  "init_aux ext n K s0 =
     (let s1 = add_aux (nat K) (add_aux (nat (K - 1)) (add_aux n (add_aux n s0)));
          s2 = fold (\<lambda>i. set_aux ext 2 (int i - 1) 0) [0..<nat (K - 1)] s1;
          s3 = cumsum_step s2;
          s4 = fold (\<lambda>i. set_aux ext 1 (int i) 0) [0..<n] s3
      in fold (\<lambda>i. set_aux ext 0 (int i) 0) [0..<n] s4)"

subsection \<open>One iteration of the loop (lines 271--345)\<close>

definition count_step :: "locals \<Rightarrow> nat \<Rightarrow> ('f, 'r) sampler \<Rightarrow> ('f, 'r) sampler" where
  "count_step loc i s =
     (if int i \<in> set (keep_idx loc) then s\<lparr>sample_counter := sample_counter s + 1\<rparr> else s)"

text \<open>
  The call of \<open>sample_one_iteration\<close>.  Modelled from the spec: when told to persist, the
  sampler appends a copy of the forest to the snapshot sequence \<open>forest_samples\<close>.
\<close>

definition call_forest_sampler ::
  "('f, 'r) externals \<Rightarrow> args \<Rightarrow> locals \<Rightarrow> bool \<Rightarrow> bool \<Rightarrow> ('f, 'r) sampler \<Rightarrow> ('f, 'r) sampler" where
  "call_forest_sampler ext a loc keep_sample flag s =
     (let fr = forest_update ext keep_sample flag (num_threads a) (outcome_train loc)
                 (active_forest s) (forest_dataset_train s) (cpp_rng s)
      in logged (SampleOneIteration keep_sample flag (num_threads a))
           (s\<lparr>active_forest := fst fr, cpp_rng := snd fr,
              snapshots := (if keep_sample then snapshots s @ [fst fr] else snapshots s)\<rparr>))"

definition forest_step ::
  "('f, 'r) externals \<Rightarrow> args \<Rightarrow> locals \<Rightarrow> nat \<Rightarrow> ('f, 'r) sampler \<Rightarrow> ('f, 'r) sampler" where
  "forest_step ext a loc i s =
     (if int i > num_gfr a - 1 then
        call_forest_sampler ext a loc (int i \<in> set (keep_idx loc)) True s
      else
        call_forest_sampler ext a loc (int i \<in> set (keep_idx loc)) False s)"

definition predictions :: "('f, 'r) externals \<Rightarrow> 'f \<Rightarrow> which_data \<Rightarrow> nat \<Rightarrow> real list" where
  "predictions ext f w n = map (predict_row ext f w) [0..<n]"

definition refresh_predictions ::
  "('f, 'r) externals \<Rightarrow> locals \<Rightarrow> ('f, 'r) sampler \<Rightarrow> ('f, 'r) sampler" where
  "refresh_predictions ext loc s =
     (let n = length (outcome_train loc);
          forest_pred_current = predictions ext (active_forest s) Train n
      in fold (\<lambda>j. set_aux ext 1 (int j) (forest_pred_current ! j)) [0..<n]
           (logged (Predict Train) s))"

definition latent_step ::
  "('f, 'r) externals \<Rightarrow> locals \<Rightarrow> ('f, 'r) sampler \<Rightarrow> exn \<times> ('f, 'r) sampler + ('f, 'r) sampler" where
  "latent_step ext loc s =
     (case update_latent_variables ext (enumerate 0 (outcome_train loc))
             (forest_dataset_train s) (cpp_rng s) of
        Inl e \<Rightarrow> Inl (e, logged UpdateLatentVariables s)
      | Inr dr \<Rightarrow>
          Inr (logged UpdateLatentVariables
                 (s\<lparr>forest_dataset_train := fst dr, cpp_rng := snd dr\<rparr>)))"

text \<open>\<open>gamma_0\<close> is the constant \<open>0.0\<close> of line 182.\<close>

definition gamma_step ::
  "('f, 'r) externals \<Rightarrow> args \<Rightarrow> locals \<Rightarrow> ('f, 'r) sampler \<Rightarrow> ('f, 'r) sampler" where
  "gamma_step ext a loc s =
     (let dr = update_gamma_params ext (alpha_gamma a) (beta_gamma a) 0 (outcome_train loc)
                 (forest_dataset_train s) (cpp_rng s)
      in logged (UpdateGammaParams (alpha_gamma a) (beta_gamma a) 0)
           (s\<lparr>forest_dataset_train := fst dr, cpp_rng := snd dr\<rparr>))"

text \<open>
  \<open>array[:, j] = column\<close>: a negative \<open>j\<close> counts from the last column, and an index outside
  the matrix raises.
\<close>

definition put_column :: "int \<Rightarrow> real list \<Rightarrow> container \<Rightarrow> exn + container" where
  "put_column c col cont =
     (let n = int (length cont); j = (if c < 0 then c + n else c)
      in if 0 \<le> j \<and> j < n then Inr (cont[nat j := Some col]) else Inl IndexError)"

definition keep_train ::
  "('f, 'r) externals \<Rightarrow> locals \<Rightarrow> ('f, 'r) sampler \<Rightarrow> exn \<times> ('f, 'r) sampler + ('f, 'r) sampler" where
  "keep_train ext loc s =
     (let s1 = logged (Predict Train) s
      in case put_column (sample_counter s)
                (predictions ext (active_forest s) Train (length (outcome_train loc)))
                (train_columns s) of
           Inl e \<Rightarrow> Inl (e, s1)
         | Inr c \<Rightarrow> Inr (s1\<lparr>train_columns := c\<rparr>))"

definition keep_test ::
  "('f, 'r) externals \<Rightarrow> locals \<Rightarrow> ('f, 'r) sampler \<Rightarrow> exn \<times> ('f, 'r) sampler + ('f, 'r) sampler" where
  "keep_test ext loc s =
     (case test_rows loc of
        None \<Rightarrow> Inr s
      | Some nt \<Rightarrow>
          (let s1 = logged (Predict Test) s
           in case put_column (sample_counter s) (predictions ext (active_forest s) Test nt)
                     (test_columns s) of
                Inl e \<Rightarrow> Inl (e, s1)
              | Inr c \<Rightarrow> Inr (s1\<lparr>test_columns := c\<rparr>)))"

definition keep_gamma :: "('f, 'r) sampler \<Rightarrow> exn \<times> ('f, 'r) sampler + ('f, 'r) sampler" where
  "keep_gamma s =
     (let s1 = logged (GetAuxiliaryDataArray 2) s
      in case put_column (sample_counter s)
                (get_auxiliary_data_array 2 (forest_dataset_train s)) (gamma_columns s) of
           Inl e \<Rightarrow> Inl (e, s1)
         | Inr c \<Rightarrow> Inr (s1\<lparr>gamma_columns := c\<rparr>))"

definition keep_latent :: "('f, 'r) sampler \<Rightarrow> exn \<times> ('f, 'r) sampler + ('f, 'r) sampler" where
  "keep_latent s =
     (let s1 = logged (GetAuxiliaryDataArray 0) s
      in case put_column (sample_counter s)
                (get_auxiliary_data_array 0 (forest_dataset_train s)) (latent_columns s) of
           Inl e \<Rightarrow> Inl (e, s1)
         | Inr c \<Rightarrow> Inr (s1\<lparr>latent_columns := c\<rparr>))"

definition retain_step ::
  "('f, 'r) externals \<Rightarrow> locals \<Rightarrow> nat \<Rightarrow> ('f, 'r) sampler \<Rightarrow> exn \<times> ('f, 'r) sampler + ('f, 'r) sampler" where
  "retain_step ext loc i s =
     (if int i \<in> set (keep_idx loc) then
        seq (seq (seq (keep_train ext loc s) (keep_test ext loc)) keep_gamma) keep_latent
      else Inr s)"

definition iteration ::
  "('f, 'r) externals \<Rightarrow> args \<Rightarrow> locals \<Rightarrow> nat \<Rightarrow> ('f, 'r) sampler \<Rightarrow> exn \<times> ('f, 'r) sampler + ('f, 'r) sampler" where
  "iteration ext a loc i s =
     seq (latent_step ext loc
            (refresh_predictions ext loc (forest_step ext a loc i (count_step loc i s))))
         (\<lambda>s'. retain_step ext loc i (cumsum_step (gamma_step ext a loc s')))"

fun run_iterations ::
  "('f, 'r) externals \<Rightarrow> args \<Rightarrow> locals \<Rightarrow> nat list \<Rightarrow> ('f, 'r) sampler \<Rightarrow> exn \<times> ('f, 'r) sampler + ('f, 'r) sampler" where
  "run_iterations ext a loc [] s = Inr s"
| "run_iterations ext a loc (i # rest) s =
     seq (iteration ext a loc i s) (run_iterations ext a loc rest)"

subsection \<open>The method \<open>sample\<close>\<close>

text \<open>
  Lines 135--164: the preprocessor is assigned, fitted on \<open>X_train\<close> and applied to the
  training and the test covariates; then the dimensions are stored.  The adjustment of the
  variable weights (lines 148--156) only feeds the configuration of the forest sampler.
\<close>

definition preprocess_and_dims ::
  "('f, 'r) externals \<Rightarrow> args \<Rightarrow> int list \<Rightarrow> 'f model \<Rightarrow> exn \<times> 'f model + nat option \<times> 'f model" where
  "preprocess_and_dims ext a vs m =
     (let m1 = m\<lparr>covariate_preprocessor := Some (X_train a)\<rparr>
      in case transform ext (X_train a) (X_train a) of
           Inl e \<Rightarrow> Inl (e, m1)
         | Inr tr \<Rightarrow>
             (case (case X_test a of
                      None \<Rightarrow> Inr None
                    | Some X \<Rightarrow>
                        (case transform ext (X_train a) X of
                           Inl e \<Rightarrow> Inl e
                         | Inr te \<Rightarrow> Inr (Some (fst te)))) of
                Inl e \<Rightarrow> Inl (e, m1)
              | Inr rows \<Rightarrow>
                  Inr (rows,
                       m1\<lparr>has_test := Some (X_test a \<noteq> None),
                          n_train := Some (length vs),
                          n_test := Some (case rows of None \<Rightarrow> 0 | Some n \<Rightarrow> n),
                          num_covariates := Some (snd tr)\<rparr>)))"

definition levels :: "nat \<Rightarrow> int list \<Rightarrow> 'f model \<Rightarrow> exn \<times> 'f model + int \<times> 'f model" where
  "levels w vs m =
     (case outcome_levels w vs of
        Inl e \<Rightarrow> Inl (e, m)
      | Inr K \<Rightarrow>
          (case check_levels K of
             Inl e \<Rightarrow> Inl (e, m\<lparr>n_levels := Some K\<rparr>)
           | Inr _ \<Rightarrow> Inr (K, m\<lparr>n_levels := Some K\<rparr>)))"

text \<open>Lines 190--198.\<close>

definition make_containers :: "args \<Rightarrow> locals \<Rightarrow> 'f model \<Rightarrow> 'f model" where
  "make_containers a loc m =
     m\<lparr>self_num_gfr := Some (num_gfr a),
       self_num_burnin := Some (num_burnin a),
       self_num_mcmc := Some (num_mcmc a),
       forest_pred_train := Some (replicate (length (keep_idx loc)) None),
       forest_pred_test :=
         (case test_rows loc of
            None \<Rightarrow> forest_pred_test m
          | Some _ \<Rightarrow> Some (replicate (length (keep_idx loc)) None)),
       gamma_samples := Some (replicate (length (keep_idx loc)) None),
       latent_samples := Some (replicate (length (keep_idx loc)) None)\<rparr>"

text \<open>
  Lines 201--207: with a seed, \<open>RNG(seed)\<close> is made first, and then
  \<open>np.random.default_rng(seed)\<close> raises for a negative seed (the numpy generator \<open>self.rng\<close>
  is not used by the sampler).
\<close>

definition make_rng :: "('f, 'r) externals \<Rightarrow> 'r \<Rightarrow> args \<Rightarrow> exn + 'r" where
  "make_rng ext entropy a =
     (case seed a of
        None \<Rightarrow> RNG ext entropy (- 1)
      | Some s \<Rightarrow>
          (case RNG ext entropy s of
             Inl e \<Rightarrow> Inl e
           | Inr r \<Rightarrow>
               if s < 0 then Inl (ValueError ''expected non-negative integer'') else Inr r))"

definition new_sampler :: "('f, 'r) externals \<Rightarrow> args \<Rightarrow> nat \<Rightarrow> 'r \<Rightarrow> ('f, 'r) sampler" where
  "new_sampler ext a n_keep r =
     \<lparr>trace = [], forest_dataset_train = [], active_forest = new_forest ext (n_trees a),
      cpp_rng = r, sample_counter = - 1,
      train_columns = replicate n_keep None, test_columns = replicate n_keep None,
      gamma_columns = replicate n_keep None, latent_columns = replicate n_keep None,
      snapshots = []\<rparr>"

text \<open>Everything before the loop: lines 88--267.\<close>

definition prepare ::
  "('f, 'r) externals \<Rightarrow> 'r \<Rightarrow> args \<Rightarrow> 'f model
     \<Rightarrow> 'f outcome_of_call + locals \<times> 'f model \<times> ('f, 'r) sampler" where
  "prepare ext entropy a m =
     (case data_checks a of
        Inl e \<Rightarrow> Inl (Raised e m [])
      | Inr vs \<Rightarrow>
     (case weight_checks a of
        Inl e \<Rightarrow> Inl (Raised e m [])
      | Inr _ \<Rightarrow>
     (case preprocess_and_dims ext a vs m of
        Inl em \<Rightarrow> Inl (Raised (fst em) (snd em) [])
      | Inr rm \<Rightarrow>
     (case levels (element_bits (y_train a)) vs (snd rm) of
        Inl em \<Rightarrow> Inl (Raised (fst em) (snd em) [])
      | Inr Km \<Rightarrow>
     (case keep_indices a of
        Inl e \<Rightarrow> Inl (Raised e (snd Km) [])
      | Inr kidx \<Rightarrow>
          (let loc = \<lparr>outcome_train = vs, keep_idx = kidx, test_rows = fst rm\<rparr>;
               m4 = make_containers a loc (snd Km)
           in case make_rng ext entropy a of
                Inl e \<Rightarrow> Inl (Raised e m4 [])
              | Inr r \<Rightarrow>
                  Inr (loc, m4\<lparr>forest_samples := Some []\<rparr>,
                       init_aux ext (length vs) (fst Km)
                         (new_sampler ext a (length kidx) r))))))))"

definition sample ::
  "('f, 'r) externals \<Rightarrow> 'r \<Rightarrow> args \<Rightarrow> 'f model \<Rightarrow> 'f outcome_of_call" where
  "sample ext entropy a m =
     (case prepare ext entropy a m of
        Inl out \<Rightarrow> out
      | Inr lms \<Rightarrow>
          (case run_iterations ext a (fst lms)
                  [0..<nat (num_gfr a + num_burnin a + num_mcmc a)] (snd (snd lms)) of
             Inl es \<Rightarrow> Raised (fst es) (publish (fst lms) (snd es) (fst (snd lms))) (trace (snd es))
           | Inr s \<Rightarrow>
               Completed ((publish (fst lms) s (fst (snd lms)))\<lparr>sampled := True\<rparr>) (trace s)))"

subsection \<open>The method \<open>predict\<close>\<close>

definition is_sampled :: "'f model \<Rightarrow> bool" where
  "is_sampled m = sampled m"

text \<open>
  Lines 366--412.  After the two checks the preprocessor fitted by \<open>sample\<close> is applied and
  the retained forests predict.
\<close>

definition predict ::
  "('f, 'r) externals \<Rightarrow> 'f model \<Rightarrow> covariates \<Rightarrow> exn + real list list" where
  "predict ext m X =
     (if \<not> is_sampled m then
        Inl (NotSampledError
          ''This CloglogOrdinalBARTModel instance is not fitted yet. Call fit with appropriate arguments before using this model.'')
      else if \<not> is_tabular X then
        Inl (ValueError ''X must be a pandas dataframe or numpy array'')
      else
        (case covariate_preprocessor m of
           None \<Rightarrow> Inl AttributeError
         | Some X0 \<Rightarrow>
             (case transform ext X0 X of
                Inl e \<Rightarrow> Inl e
              | Inr _ \<Rightarrow>
                  (case forest_samples m of
                     None \<Rightarrow> Inl AttributeError
                   | Some fs \<Rightarrow> container_predict ext fs X))))"

subsection \<open>Notions used to state the properties\<close>

text \<open>
  The model objects on which no call of \<open>sample\<close> has completed: a new object, and what a
  call that raised leaves of such an object.
\<close>

inductive not_completed :: "('f, 'r) externals \<Rightarrow> 'f model \<Rightarrow> bool"
  for ext :: "('f, 'r) externals" where
  fresh: "not_completed ext init_model"
| failed: "not_completed ext m \<Longrightarrow> sample ext entropy a m = Raised e m' tr
     \<Longrightarrow> not_completed ext m'"

text \<open>
  A small instance of the collaborators, at which the theorems below are instantiated:
  forests and generator states are counters, a write outside a series leaves every slot as
  it was, the preprocessor keeps the shape, the generator takes the seeds of 32 bits,
  every prediction is the forest's counter and every uniform variate is one half.
\<close>

definition demo_ext :: "(nat, nat) externals" where
  "demo_ext =
     \<lparr>stray_write = (\<lambda>ser i v d k j. d ! k ! j),
      transform = (\<lambda>X0 X. Inr (shape X)),
      seeded_rng = (\<lambda>s. if - 2147483648 \<le> s \<and> s < 2147483648 then Inr (nat s)
                         else Inl (TypeError ''incompatible constructor arguments'')),
      new_forest = (\<lambda>n. 0),
      forest_update = (\<lambda>k g t vs f d r. (Suc f, Suc r)),
      predict_row = (\<lambda>f w i. real f),
      uniform = (\<lambda>r. (1 / 2, Suc r)),
      gamma_posterior = (\<lambda>al be g0 vs d r. (\<lambda>i. 0, Suc r)),
      container_predict = (\<lambda>fs X. Inr [])\<rparr>"

text \<open>
  The remaining definitions name what the statements and the proofs of the next section
  speak about: the shape of the four auxiliary series, the state handed to the latent
  update, the iterations retained so far, the inputs on which nothing is raised before the
  loop, and the state of a call after a number of iterations.
\<close>

definition series_shaped :: "nat \<Rightarrow> int \<Rightarrow> dataset \<Rightarrow> bool" where
  "series_shaped n K d \<longleftrightarrow>
     length d = 4 \<and> aux_size d 0 = n \<and> aux_size d 1 = n \<and>
     aux_size d 2 = nat (K - 1) \<and> aux_size d 3 = nat K"

definition cumulative_ok :: "dataset \<Rightarrow> bool" where
  "cumulative_ok d \<longleftrightarrow>
     (\<forall>j. 0 \<le> j \<and> j < int (aux_size d 3) \<longrightarrow> 0 \<le> aux_cell d 3 j) \<and>
     (\<forall>j. 0 \<le> j \<and> j + 1 < int (aux_size d 3) \<longrightarrow> aux_cell d 3 j < aux_cell d 3 (j + 1))"

text \<open>The state handed to the latent update.\<close>

definition before_latent ::
  "('f, 'r) externals \<Rightarrow> args \<Rightarrow> locals \<Rightarrow> nat \<Rightarrow> ('f, 'r) sampler \<Rightarrow> ('f, 'r) sampler" where
  "before_latent ext a loc i s =
     refresh_predictions ext loc (forest_step ext a loc i (count_step loc i s))"

definition kept_before :: "locals \<Rightarrow> nat \<Rightarrow> nat list" where
  "kept_before loc i = filter (\<lambda>j. int j \<in> set (keep_idx loc)) [0..<i]"

definition run_inv :: "locals \<Rightarrow> int \<Rightarrow> nat \<Rightarrow> ('f, 'r) sampler \<Rightarrow> bool" where
  "run_inv loc K i s \<longleftrightarrow>
     series_shaped (length (outcome_train loc)) K (forest_dataset_train s) \<and>
     cumulative_ok (forest_dataset_train s) \<and>
     length (train_columns s) = length (keep_idx loc) \<and>
     length (test_columns s) = length (keep_idx loc) \<and>
     length (gamma_columns s) = length (keep_idx loc) \<and>
     length (latent_columns s) = length (keep_idx loc) \<and>
     sample_counter s = int (length (kept_before loc i)) - 1"

text \<open>What the retention block appends to the trace.\<close>

definition retain_events :: "locals \<Rightarrow> nat \<Rightarrow> event list" where
  "retain_events loc i =
     (if int i \<in> set (keep_idx loc) then
        [Predict Train] @ (case test_rows loc of None \<Rightarrow> [] | Some _ \<Rightarrow> [Predict Test])
        @ [GetAuxiliaryDataArray 2, GetAuxiliaryDataArray 0]
      else [])"

definition accepted :: "('f, 'r) externals \<Rightarrow> args \<Rightarrow> bool" where
  "accepted ext a \<longleftrightarrow>
     (case data_checks a of
        Inl _ \<Rightarrow> False
      | Inr vs \<Rightarrow>
          weight_checks a = Inr () \<and>
          \<not> isl (transform ext (X_train a) (X_train a)) \<and>
          (case X_test a of None \<Rightarrow> True | Some X \<Rightarrow> \<not> isl (transform ext (X_train a) X)) \<and>
          (case outcome_levels (element_bits (y_train a)) vs of Inl _ \<Rightarrow> False | Inr K \<Rightarrow> 2 \<le> K) \<and>
          n_thin a \<noteq> 0 \<and>
          (case seed a of None \<Rightarrow> True | Some s \<Rightarrow> 0 \<le> s \<and> \<not> isl (seeded_rng ext s)))"

definition call_locals :: "('f, 'r) externals \<Rightarrow> args \<Rightarrow> locals" where
  "call_locals ext a =
     \<lparr>outcome_train = (case y_train a of Ndarray el \<Rightarrow> ints el | NotNdarray \<Rightarrow> []),
      keep_idx = (case keep_indices a of Inl _ \<Rightarrow> [] | Inr kidx \<Rightarrow> kidx),
      test_rows = (case X_test a of None \<Rightarrow> None
                   | Some X \<Rightarrow> (case transform ext (X_train a) X of
                                Inl _ \<Rightarrow> None | Inr te \<Rightarrow> Some (fst te)))\<rparr>"

definition call_levels :: "args \<Rightarrow> int" where
  "call_levels a =
     (case y_train a of Ndarray el \<Rightarrow> wrap (bits el) (Max (set (ints el)) + 1) | NotNdarray \<Rightarrow> 0)"

definition call_rng :: "('f, 'r) externals \<Rightarrow> 'r \<Rightarrow> args \<Rightarrow> 'r" where
  "call_rng ext entropy a = (case make_rng ext entropy a of Inl _ \<Rightarrow> entropy | Inr r \<Rightarrow> r)"

definition initial_sampler :: "('f, 'r) externals \<Rightarrow> 'r \<Rightarrow> args \<Rightarrow> ('f, 'r) sampler" where
  "initial_sampler ext entropy a =
     init_aux ext (length (outcome_train (call_locals ext a))) (call_levels a)
       (new_sampler ext a (length (keep_idx (call_locals ext a))) (call_rng ext entropy a))"

definition fresh_dataset :: "nat \<Rightarrow> int \<Rightarrow> dataset" where
  "fresh_dataset n K =
     add_auxiliary_dimension (nat K)
       (add_auxiliary_dimension (nat (K - 1))
          (add_auxiliary_dimension n (add_auxiliary_dimension n [])))"

definition init_dataset :: "stray \<Rightarrow> nat \<Rightarrow> int \<Rightarrow> dataset" where
  "init_dataset stray n K =
     fold (\<lambda>i. set_auxiliary_data_value stray 0 (int i) 0) [0..<n]
       (fold (\<lambda>i. set_auxiliary_data_value stray 1 (int i) 0) [0..<n]
          (update_cumulative_exp_sums
             (fold (\<lambda>i. set_auxiliary_data_value stray 2 (int i - 1) 0) [0..<nat (K - 1)]
                (fresh_dataset n K))))"

definition init_events :: "nat \<Rightarrow> int \<Rightarrow> event list" where
  "init_events n K =
     [AddAuxiliaryDimension n, AddAuxiliaryDimension n,
      AddAuxiliaryDimension (nat (K - 1)), AddAuxiliaryDimension (nat K)]
     @ map (\<lambda>i. SetAuxiliaryDataValue 2 (int i - 1) 0) [0..<nat (K - 1)]
     @ [UpdateCumulativeExpSums]
     @ map (\<lambda>i. SetAuxiliaryDataValue 1 (int i) 0) [0..<n]
     @ map (\<lambda>i. SetAuxiliaryDataValue 0 (int i) 0) [0..<n]"

definition state_after ::
  "('f, 'r) externals \<Rightarrow> 'r \<Rightarrow> args \<Rightarrow> 'f model \<Rightarrow> nat \<Rightarrow> ('f, 'r) sampler option" where
  "state_after ext entropy a m k =
     (case prepare ext entropy a m of
        Inl _ \<Rightarrow> None
      | Inr lms \<Rightarrow>
          (case run_iterations ext a (fst lms) [0..<k] (snd (snd lms)) of
             Inl _ \<Rightarrow> None
           | Inr s \<Rightarrow> Some s))"

definition forest_calls :: "event list \<Rightarrow> event list" where
  "forest_calls tr = filter (\<lambda>e. case e of SampleOneIteration _ _ _ \<Rightarrow> True | _ \<Rightarrow> False) tr"

text \<open>A call at which the theorems are instantiated: two rows, one column, outcomes 0 and 1.\<close>

definition demo_args :: args where
  "demo_args =
     \<lparr>X_train = Ndarray2 2 1, y_train = Ndarray (Int64 [0, 1]), X_test = None, n_trees = 50,
      num_gfr = 1, num_burnin = 1, num_mcmc = 2, n_thin = 1, alpha_gamma = 2, beta_gamma = 2,
      variable_weights = None, seed = Some 7, num_threads = 1\<rparr>"

text \<open>
  A call with twenty rows and a negative number of burn-in iterations, which \<open>sample\<close> does
  not refuse.
\<close>

definition negative_args :: args where
  "negative_args =
     demo_args\<lparr>X_train := Ndarray2 20 1,
       y_train := Ndarray (Int64 [0, 1, 0, 1, 0, 1, 0, 1, 0, 1, 0, 1, 0, 1, 0, 1, 0, 1, 0, 1]),
       num_gfr := 0, num_burnin := - 2, num_mcmc := 4\<rparr>"

text \<open>
  The attributes a run creates for its samples: the flag, the four sample containers, the
  forest container and the stored iteration counts.
\<close>

definition sampling_state ::
  "'f model \<Rightarrow> bool \<times> container option \<times> container option \<times> container option \<times> container option
     \<times> 'f list option \<times> int option \<times> int option \<times> int option" where
  "sampling_state m =
     (sampled m, forest_pred_train m, forest_pred_test m, gamma_samples m, latent_samples m,
      forest_samples m, self_num_gfr m, self_num_burnin m, self_num_mcmc m)"

text \<open>The four columns written for retained draw \<open>j\<close>, and the values a state offers for them.\<close>

type_synonym draw = "real list option \<times> real list option \<times> real list option \<times> real list option"

definition draw_at :: "('f, 'r) sampler \<Rightarrow> nat \<Rightarrow> draw" where
  "draw_at s j = (train_columns s ! j, test_columns s ! j, gamma_columns s ! j, latent_columns s ! j)"

definition draw_of :: "('f, 'r) externals \<Rightarrow> locals \<Rightarrow> ('f, 'r) sampler \<Rightarrow> draw" where
  "draw_of ext loc s =
     (Some (predictions ext (active_forest s) Train (length (outcome_train loc))),
      (case test_rows loc of None \<Rightarrow> None
       | Some nt \<Rightarrow> Some (predictions ext (active_forest s) Test nt)),
      Some (get_auxiliary_data_array 2 (forest_dataset_train s)),
      Some (get_auxiliary_data_array 0 (forest_dataset_train s)))"

section \<open>Properties\<close>

lemma arange_examples:
  "arange 5 10 2 = Inr [5, 7, 9]" "arange 5 5 1 = Inr []" "arange 3 6 0 = Inl ZeroDivisionError"
  by (simp_all add: arange_def upt_rec)

subsection \<open>The flag \<open>sampled\<close>\<close>

lemma preprocess_sampled:
  "preprocess_and_dims ext a vs m = Inl em \<Longrightarrow> sampled (snd em) = sampled m"
  "preprocess_and_dims ext a vs m = Inr rm \<Longrightarrow> sampled (snd rm) = sampled m"
  by (auto simp: preprocess_and_dims_def Let_def split: sum.splits option.splits)

lemma levels_sampled:
  "levels w vs m = Inl em \<Longrightarrow> sampled (snd em) = sampled m"
  "levels w vs m = Inr Km \<Longrightarrow> sampled (snd Km) = sampled m"
  by (auto simp: levels_def split: sum.splits)

lemma prepare_raised_sampled:
  "prepare ext entropy a m = Inl (Raised e m' tr) \<Longrightarrow> sampled m' = sampled m"
  unfolding prepare_def
  by (auto simp: Let_def make_containers_def split: sum.splits
      dest: preprocess_sampled levels_sampled)

lemma prepare_ok_sampled:
  "prepare ext entropy a m = Inr lms \<Longrightarrow> sampled (fst (snd lms)) = sampled m"
  unfolding prepare_def
  by (auto simp: Let_def make_containers_def split: sum.splits
      dest: preprocess_sampled levels_sampled)

lemma sample_raised_sampled:
  "sample ext entropy a m = Raised e m' tr \<Longrightarrow> sampled m' = sampled m"
  unfolding sample_def
  by (auto simp: publish_def split: sum.splits dest: prepare_raised_sampled prepare_ok_sampled)

lemma not_completed_unsampled: "not_completed ext m \<Longrightarrow> \<not> sampled m"
  by (induction rule: not_completed.induct) (auto simp: init_model_def dest: sample_raised_sampled)

text \<open>
  C9.  On every model object on which no call of \<open>sample\<close> has completed, \<open>predict\<close> raises
  \<open>NotSampledError\<close>, whatever its argument; that is not the \<open>ValueError\<close> which \<open>predict\<close>
  raises for an argument that is neither a data frame nor an array once the model is sampled.
\<close>

theorem predict_before_sample_raises_NotSampledError:
  "not_completed ext m \<Longrightarrow>
     (\<exists>msg. predict ext m X = Inl (NotSampledError msg)) \<and>
     (\<forall>msg. predict ext m X \<noteq> Inl (ValueError msg)) \<and>
     (\<forall>m'. sampled m' \<longrightarrow> (\<exists>msg. predict ext m' NotTabular = Inl (ValueError msg)))"
  by (auto simp: predict_def is_sampled_def dest: not_completed_unsampled)

theorem predict_before_sample_witness:
  "(\<exists>msg. predict demo_ext init_model NotTabular = Inl (NotSampledError msg)) \<and>
   (\<forall>msg. predict demo_ext init_model NotTabular \<noteq> Inl (ValueError msg))"
  using predict_before_sample_raises_NotSampledError [OF not_completed.fresh, of demo_ext NotTabular]
  by blast

subsection \<open>The auxiliary series, one iteration, and a whole run\<close>

lemma length_set_value [simp]: "length (set_auxiliary_data_value st ser i v d) = length d"
  by (simp add: set_auxiliary_data_value_def)

lemma aux_size_set_value [simp]:
  "aux_size (set_auxiliary_data_value st ser i v d) k = aux_size d k"
  by (cases "k = ser") (auto simp: set_auxiliary_data_value_def aux_size_def is_slot_def)

lemma is_slot_set_value [simp]:
  "is_slot (set_auxiliary_data_value st ser i v d) k j = is_slot d k j"
  by (simp add: is_slot_def)

lemma aux_cell_set_value:
  "is_slot d ser i \<Longrightarrow>
   aux_cell (set_auxiliary_data_value st ser i v d) k j =
     (if k = ser \<and> j = i then v else aux_cell d k j)"
  by (auto simp: set_auxiliary_data_value_def aux_cell_def is_slot_def aux_size_def
      nth_list_update)


lemma length_install [simp]: "length (install_series ser f d) = length d"
  by (simp add: install_series_def)

lemma aux_size_install [simp]: "aux_size (install_series ser f d) k = aux_size d k"
  by (simp add: install_series_def aux_size_def nth_list_update)

lemma is_slot_install [simp]: "is_slot (install_series ser f d) k j = is_slot d k j"
  by (simp add: is_slot_def)

lemma aux_cell_install:
  "aux_cell (install_series ser f d) k j =
     (if k = ser \<and> ser < length d \<and> 0 \<le> j \<and> j < int (aux_size d ser) then f j
      else aux_cell d k j)"
  by (auto simp: install_series_def aux_cell_def is_slot_def aux_size_def nth_list_update)

lemma length_add_dim [simp]: "length (add_auxiliary_dimension n d) = Suc (length d)"
  by (simp add: add_auxiliary_dimension_def)

lemma aux_size_add_dim:
  "aux_size (add_auxiliary_dimension n d) k =
     (if k = length d then n else aux_size d k)"
  by (auto simp: add_auxiliary_dimension_def aux_size_def nth_append)

lemma aux_cell_add_dim:
  "aux_cell (add_auxiliary_dimension n d) k j =
     (if k = length d then 0 else aux_cell d k j)"
  by (auto simp: add_auxiliary_dimension_def aux_cell_def is_slot_def aux_size_def nth_append)

lemma length_get_array [simp]: "length (get_auxiliary_data_array ser d) = aux_size d ser"
  by (simp add: get_auxiliary_data_array_def aux_size_def)

lemma get_array_nth:
  "j < aux_size d ser \<Longrightarrow> get_auxiliary_data_array ser d ! j = aux_cell d ser (int j)"
  by (auto simp: get_auxiliary_data_array_def aux_cell_def is_slot_def aux_size_def
      split: if_splits)

lemma get_array_eq:
  "get_auxiliary_data_array ser d = map (\<lambda>j. aux_cell d ser (int j)) [0..<aux_size d ser]"
  by (rule nth_equalityI) (simp_all add: get_array_nth)

lemma series_shaped_set_value [simp]:
  "series_shaped n K (set_auxiliary_data_value st ser i v d) = series_shaped n K d"
  by (simp add: series_shaped_def)

lemma series_shaped_install [simp]:
  "series_shaped n K (install_series ser f d) = series_shaped n K d"
  by (simp add: series_shaped_def)

lemma cumulative_exp_sum_Suc:
  "cumulative_exp_sum g (Suc i) = cumulative_exp_sum g i + exp (g (int i))"
  by (simp add: cumulative_exp_sum_def)

lemma cumulative_exp_sum_nonneg: "0 \<le> cumulative_exp_sum g i"
  by (induction i) (simp_all add: cumulative_exp_sum_Suc cumulative_exp_sum_def)

lemma cumulative_ok_update:
  "3 < length d \<Longrightarrow> cumulative_ok (update_cumulative_exp_sums d)"
proof -
  assume len: "3 < length d"
  let ?g = "aux_cell d 2"
  have step: "cumulative_exp_sum ?g (nat j) < cumulative_exp_sum ?g (nat (j + 1))" if "0 \<le> j" for j
  proof -
    have "nat (j + 1) = Suc (nat j)" using that by simp
    then show ?thesis by (simp add: cumulative_exp_sum_Suc)
  qed
  show ?thesis
    unfolding cumulative_ok_def update_cumulative_exp_sums_def
    using len by (auto simp: aux_cell_install cumulative_exp_sum_nonneg step)
qed

lemma length_cumsum [simp]: "length (update_cumulative_exp_sums d) = length d"
  by (simp add: update_cumulative_exp_sums_def)

lemma aux_size_cumsum [simp]: "aux_size (update_cumulative_exp_sums d) k = aux_size d k"
  by (simp add: update_cumulative_exp_sums_def)


lemma cumulative_ok_set_value:
  "ser \<noteq> 3 \<Longrightarrow> is_slot d ser i \<Longrightarrow>
   cumulative_ok (set_auxiliary_data_value st ser i v d) = cumulative_ok d"
  by (simp add: cumulative_ok_def aux_cell_set_value)

lemma cumulative_ok_install:
  "ser \<noteq> 3 \<Longrightarrow> cumulative_ok (install_series ser f d) = cumulative_ok d"
  by (simp add: cumulative_ok_def aux_cell_install)

lemma trunc_exp_draw_gt:
  assumes "0 < u" "u < 1" "case hi of None \<Rightarrow> True | Some b \<Rightarrow> lo < b"
  shows "lo < trunc_exp_draw lo hi u"
proof (cases hi)
  case None
  have "ln (1 - u) < 0" using assms(1,2) by simp
  then show ?thesis using None by (simp add: trunc_exp_draw_def)
next
  case (Some b)
  then have lb: "lo < b" using assms(3) by simp
  define w where "w = exp (- lo) - u * (exp (- lo) - exp (- b))"
  have e: "exp (- b) < exp (- lo)" using lb by simp
  have "w = (1 - u) * exp (- lo) + u * exp (- b)" by (simp add: w_def algebra_simps)
  moreover have "0 < (1 - u) * exp (- lo)" "0 < u * exp (- b)" using assms(1,2) by simp_all
  ultimately have wpos: "0 < w" by linarith
  have "0 < u * (exp (- lo) - exp (- b))" using assms(1) e by simp
  then have wlt: "w < exp (- lo)" by (simp add: w_def)
  have "ln w < ln (exp (- lo))" using wpos wlt by (subst ln_less_cancel_iff) simp_all
  then have "ln w < - lo" by simp
  then show ?thesis using Some by (simp add: trunc_exp_draw_def w_def)
qed

lemma latent_draw_succeeds:
  assumes "cumulative_ok d" "0 \<le> y" "y < int (aux_size d 3)"
  shows "\<exists>z r'. latent_draw ext d i y r = Inr (z, r')"
proof -
  have "aux_cell d 3 y * exp lam < aux_cell d 3 (y + 1) * exp lam"
    if "y + 1 \<noteq> int (aux_size d 3)" for lam
  proof -
    have "aux_cell d 3 y < aux_cell d 3 (y + 1)"
      using assms that unfolding cumulative_ok_def by auto
    then show ?thesis by simp
  qed
  then show ?thesis using assms(2,3)
    by (auto simp: latent_draw_def Let_def not_le)
qed

lemma latent_draw_positive:
  assumes "cumulative_ok d" "0 \<le> y" "y < int (aux_size d 3)"
    and "0 < fst (uniform ext r)" "fst (uniform ext r) < 1"
    and "latent_draw ext d i y r = Inr (z, r')"
  shows "0 < z"
proof -
  let ?lam = "aux_cell d 1 (int i)"
  let ?lo = "aux_cell d 3 y * exp ?lam"
  let ?hi = "if y + 1 = int (aux_size d 3) then None else Some (aux_cell d 3 (y + 1) * exp ?lam)"
  have lo: "0 \<le> ?lo" using assms(1-3) unfolding cumulative_ok_def by simp
  have nonempty: "case ?hi of None \<Rightarrow> True | Some b \<Rightarrow> ?lo < b"
    using assms(6,2,3) by (auto simp: latent_draw_def Let_def not_le split: if_splits)
  have "z = trunc_exp_draw ?lo ?hi (fst (uniform ext r))"
    using assms(6,2,3) by (auto simp: latent_draw_def Let_def split: if_splits)
  moreover have "?lo < trunc_exp_draw ?lo ?hi (fst (uniform ext r))"
    by (rule trunc_exp_draw_gt [OF assms(4,5) nonempty])
  ultimately show ?thesis using lo by linarith
qed

lemma update_latent_succeeds:
  assumes "cumulative_ok d" "\<forall>p\<in>set iys. 0 \<le> snd p \<and> snd p < int (aux_size d 3)"
    and "\<forall>p\<in>set iys. is_slot d 0 (int (fst p))"
  shows "\<exists>d' r'. update_latent_variables ext iys d r = Inr (d', r') \<and>
           length d' = length d \<and> (\<forall>k. aux_size d' k = aux_size d k) \<and>
           (\<forall>k j. k \<noteq> 0 \<longrightarrow> aux_cell d' k j = aux_cell d k j)"
  using assms
proof (induction iys arbitrary: d r)
  case Nil
  then show ?case by simp
next
  case (Cons p iys)
  obtain i y where p: "p = (i, y)" by (cases p)
  from Cons.prems p have y: "0 \<le> y" "y < int (aux_size d 3)" by auto
  from latent_draw_succeeds [OF Cons.prems(1) y, where ext = ext and i = i and r = r]
  obtain z r1 where z: "latent_draw ext d i y r = Inr (z, r1)" by blast
  let ?d1 = "set_auxiliary_data_value (stray_write ext) 0 (int i) z d"
  have sl: "is_slot d 0 (int i)" using Cons.prems(3) p by simp
  have c1: "cumulative_ok ?d1" using Cons.prems(1) sl by (simp add: cumulative_ok_set_value)
  have r1: "\<forall>p\<in>set iys. 0 \<le> snd p \<and> snd p < int (aux_size ?d1 3)" using Cons.prems(2) by simp
  have s1: "\<forall>p\<in>set iys. is_slot ?d1 0 (int (fst p))" using Cons.prems(3) by simp
  from Cons.IH [OF c1 r1 s1, of r1]
  obtain d' r' where IH: "update_latent_variables ext iys ?d1 r1 = Inr (d', r')"
    "length d' = length ?d1" "\<forall>k. aux_size d' k = aux_size ?d1 k"
    "\<forall>k j. k \<noteq> 0 \<longrightarrow> aux_cell d' k j = aux_cell ?d1 k j" by blast
  show ?case using IH z p sl by (simp add: aux_cell_set_value)
qed

lemma update_latent_positive:
  assumes "cumulative_ok d" "\<forall>p\<in>set iys. 0 \<le> snd p \<and> snd p < int (aux_size d 3)"
    and "\<forall>r. 0 < fst (uniform ext r) \<and> fst (uniform ext r) < 1"
    and "\<forall>p\<in>set iys. is_slot d 0 (int (fst p))"
    and "update_latent_variables ext iys d r = Inr (d', r')"
  shows "\<forall>j. j \<in> int ` fst ` set iys \<or> 0 < aux_cell d 0 j \<longrightarrow> 0 < aux_cell d' 0 j"
  using assms(1,2,4,5)
proof (induction iys arbitrary: d r)
  case Nil
  then show ?case by simp
next
  case (Cons p iys)
  obtain i y where p: "p = (i, y)" by (cases p)
  from Cons.prems p have y: "0 \<le> y" "y < int (aux_size d 3)" by auto
  from latent_draw_succeeds [OF Cons.prems(1) y, where ext = ext and i = i and r = r]
  obtain z r1 where z: "latent_draw ext d i y r = Inr (z, r1)" by blast
  have zpos: "0 < z"
    using latent_draw_positive [OF Cons.prems(1) y _ _ z] assms(3) by blast
  let ?d1 = "set_auxiliary_data_value (stray_write ext) 0 (int i) z d"
  have sl: "is_slot d 0 (int i)" using Cons.prems(3) p by simp
  have c1: "cumulative_ok ?d1" using Cons.prems(1) sl by (simp add: cumulative_ok_set_value)
  have r1: "\<forall>p\<in>set iys. 0 \<le> snd p \<and> snd p < int (aux_size ?d1 3)" using Cons.prems(2) by simp
  have run: "update_latent_variables ext iys ?d1 r1 = Inr (d', r')"
    using Cons.prems(4) z p by simp
  have l1: "\<forall>p\<in>set iys. is_slot ?d1 0 (int (fst p))" using Cons.prems(3) by simp
  from Cons.IH [OF c1 r1 l1 run]
  have IH: "\<forall>j. j \<in> int ` fst ` set iys \<or> 0 < aux_cell ?d1 0 j \<longrightarrow> 0 < aux_cell d' 0 j" .
  show ?case
  proof (intro allI impI)
    fix j assume "j \<in> int ` fst ` set (p # iys) \<or> 0 < aux_cell d 0 j"
    then have "j \<in> int ` fst ` set iys \<or> 0 < aux_cell ?d1 0 j"
      using p zpos sl by (auto simp: aux_cell_set_value)
    then show "0 < aux_cell d' 0 j" using IH by blast
  qed
qed

lemma fold_set_aux:
  "fold (\<lambda>j. set_aux ext ser (f j) (g j)) xs s =
     s\<lparr>forest_dataset_train :=
         fold (\<lambda>j. set_auxiliary_data_value (stray_write ext) ser (f j) (g j)) xs
           (forest_dataset_train s),
       trace := trace s @ map (\<lambda>j. SetAuxiliaryDataValue ser (f j) (g j)) xs\<rparr>"
  by (induction xs arbitrary: s) (simp_all add: set_aux_def logged_def)

lemma length_fold_set_value [simp]:
  "length (fold (\<lambda>j. set_auxiliary_data_value st ser (f j) (g j)) xs d) = length d"
  by (induction xs arbitrary: d) simp_all

lemma aux_size_fold_set_value [simp]:
  "aux_size (fold (\<lambda>j. set_auxiliary_data_value st ser (f j) (g j)) xs d) k = aux_size d k"
  by (induction xs arbitrary: d) simp_all

lemma is_slot_fold_set_value [simp]:
  "is_slot (fold (\<lambda>j. set_auxiliary_data_value st ser (f j) (g j)) xs d) k i = is_slot d k i"
  by (simp add: is_slot_def)

lemma aux_cell_fold_slots:
  "ser < length d \<Longrightarrow> n \<le> aux_size d ser \<Longrightarrow>
   aux_cell (fold (\<lambda>j. set_auxiliary_data_value st ser (int j) (g j)) [0..<n] d) k i =
     (if k = ser \<and> 0 \<le> i \<and> i < int n then g (nat i) else aux_cell d k i)"
proof (induction n)
  case 0
  then show ?case by simp
next
  case (Suc n)
  have "is_slot (fold (\<lambda>j. set_auxiliary_data_value st ser (int j) (g j)) [0..<n] d) ser (int n)"
    using Suc.prems by (simp add: is_slot_def)
  then show ?case using Suc by (auto simp: aux_cell_set_value)
qed

lemma aux_cell_fold_other:
  "k \<noteq> ser \<Longrightarrow> ser < length d \<Longrightarrow> n \<le> aux_size d ser \<Longrightarrow>
   aux_cell (fold (\<lambda>j. set_auxiliary_data_value st ser (int j) (g j)) [0..<n] d) k i
     = aux_cell d k i"
  by (simp add: aux_cell_fold_slots)

lemma aux_cell_fold_upt:
  "ser < length d \<Longrightarrow> n \<le> aux_size d ser \<Longrightarrow>
   aux_cell (fold (\<lambda>j. set_auxiliary_data_value st ser (int j) (g j)) [0..<n] d) ser i =
     (if 0 \<le> i \<and> i < int n then g (nat i) else aux_cell d ser i)"
  by (simp add: aux_cell_fold_slots)

lemma series_shaped_fold [simp]:
  "series_shaped n K (fold (\<lambda>j. set_auxiliary_data_value st ser (f j) (g j)) xs d)
     = series_shaped n K d"
  by (simp add: series_shaped_def)

lemma cumulative_ok_fold:
  "ser \<noteq> 3 \<Longrightarrow> ser < length d \<Longrightarrow> n \<le> aux_size d ser \<Longrightarrow>
   cumulative_ok (fold (\<lambda>j. set_auxiliary_data_value st ser (int j) (g j)) [0..<n] d)
     = cumulative_ok d"
  by (simp add: cumulative_ok_def aux_cell_fold_other)

lemma get_array_fold_upt:
  "ser < length d \<Longrightarrow> aux_size d ser = n \<Longrightarrow>
   get_auxiliary_data_array ser
       (fold (\<lambda>j. set_auxiliary_data_value st ser (int j) (g j)) [0..<n] d)
     = map g [0..<n]"
  by (simp add: get_array_eq aux_cell_fold_upt)


lemma put_column_ok:
  "0 \<le> c \<Longrightarrow> c < int (length cont) \<Longrightarrow> put_column c col cont = Inr (cont[nat c := Some col])"
  by (simp add: put_column_def Let_def)

lemma seq_Inr [simp]: "seq (Inr s) f = f s"
  by (simp add: seq_def)

lemma seq_Inl [simp]: "seq (Inl e) f = Inl e"
  by (simp add: seq_def)

lemma before_latent_eq:
  "before_latent ext a loc i s =
    (let keep = (int i \<in> set (keep_idx loc));
         fr = forest_update ext keep (int i > num_gfr a - 1) (num_threads a) (outcome_train loc)
                (active_forest s) (forest_dataset_train s) (cpp_rng s);
         n = length (outcome_train loc)
     in s\<lparr>sample_counter := (if keep then sample_counter s + 1 else sample_counter s),
          active_forest := fst fr, cpp_rng := snd fr,
          snapshots := (if keep then snapshots s @ [fst fr] else snapshots s),
          forest_dataset_train :=
            fold (\<lambda>j. set_auxiliary_data_value (stray_write ext) 1 (int j)
                         (predictions ext (fst fr) Train n ! j))
              [0..<n] (forest_dataset_train s),
          trace := trace s @ [SampleOneIteration keep (int i > num_gfr a - 1) (num_threads a),
                              Predict Train]
                   @ map (\<lambda>j. SetAuxiliaryDataValue 1 (int j) (predictions ext (fst fr) Train n ! j))
                       [0..<n]\<rparr>)"
  by (simp add: before_latent_def refresh_predictions_def forest_step_def count_step_def
      call_forest_sampler_def logged_def fold_set_aux Let_def)

lemma kept_before_Suc:
  "kept_before loc (Suc i) =
     (if int i \<in> set (keep_idx loc) then kept_before loc i @ [i] else kept_before loc i)"
  by (simp add: kept_before_def)

lemma kept_before_bound:
  assumes "int i \<in> set kidx"
  shows "length (filter (\<lambda>j. int j \<in> set kidx) [0..<i]) < length kidx"
proof -
  let ?A = "{j. j < Suc i \<and> int j \<in> set kidx}"
  have fin: "finite ?A" by simp
  have "length (filter (\<lambda>j. int j \<in> set kidx) [0..<Suc i]) = card ?A"
    by (subst distinct_length_filter) (auto intro: arg_cong [where f = card])
  moreover have "card ?A = card (int ` ?A)" by (simp add: card_image)
  moreover have "card (int ` ?A) \<le> card (set kidx)" by (rule card_mono) auto
  moreover have "card (set kidx) \<le> length kidx" by (rule card_length)
  moreover have "length (filter (\<lambda>j. int j \<in> set kidx) [0..<Suc i])
      = Suc (length (filter (\<lambda>j. int j \<in> set kidx) [0..<i]))" using assms by simp
  ultimately show ?thesis by linarith
qed

lemma predictions_nth: "j < n \<Longrightarrow> predictions ext f w n ! j = predict_row ext f w j"
  by (simp add: predictions_def)

lemma predictions_map: "map (\<lambda>j. predictions ext f w n ! j) [0..<n] = predictions ext f w n"
  by (simp add: predictions_def cong: map_cong)

lemma snd_enumerate_in: "p \<in> set (enumerate k xs) \<Longrightarrow> snd p \<in> set xs"
  by (cases p) (auto simp: in_set_enumerate_eq)

lemma iteration_ok:
  fixes ext :: "('f, 'r) externals"
  assumes inv: "run_inv loc K i s"
    and cats: "\<forall>y\<in>set (outcome_train loc). 0 \<le> y \<and> y < K"
  shows "\<exists>s'. iteration ext a loc i s = Inr s' \<and> run_inv loc K (Suc i) s' \<and>
     active_forest s' = active_forest (before_latent ext a loc i s) \<and>
     snapshots s' = snapshots (before_latent ext a loc i s) \<and>
     get_auxiliary_data_array 1 (forest_dataset_train s')
       = predictions ext (active_forest s') Train (length (outcome_train loc)) \<and>
     trace s' = trace (before_latent ext a loc i s)
        @ [UpdateLatentVariables, UpdateGammaParams (alpha_gamma a) (beta_gamma a) 0,
           UpdateCumulativeExpSums] @ retain_events loc i \<and>
     ((\<forall>r. 0 < fst (uniform ext r) \<and> fst (uniform ext r) < 1) \<longrightarrow>
        list_all (\<lambda>z. 0 < z) (get_auxiliary_data_array 0 (forest_dataset_train s'))) \<and>
     (if int i \<in> set (keep_idx loc) then
        train_columns s' = (train_columns s)[length (kept_before loc i) :=
           Some (predictions ext (active_forest s') Train (length (outcome_train loc)))] \<and>
        test_columns s' = (case test_rows loc of None \<Rightarrow> test_columns s
           | Some nt \<Rightarrow> (test_columns s)[length (kept_before loc i) :=
               Some (predictions ext (active_forest s') Test nt)]) \<and>
        gamma_columns s' = (gamma_columns s)[length (kept_before loc i) :=
           Some (get_auxiliary_data_array 2 (forest_dataset_train s'))] \<and>
        latent_columns s' = (latent_columns s)[length (kept_before loc i) :=
           Some (get_auxiliary_data_array 0 (forest_dataset_train s'))]
      else train_columns s' = train_columns s \<and> test_columns s' = test_columns s \<and>
           gamma_columns s' = gamma_columns s \<and> latent_columns s' = latent_columns s)"
proof -
  let ?n = "length (outcome_train loc)"
  let ?keep = "int i \<in> set (keep_idx loc)"
  define s1 where "s1 = before_latent ext a loc i s"
  define d1 where "d1 = forest_dataset_train s1"
  have sh: "series_shaped ?n K (forest_dataset_train s)" and cu: "cumulative_ok (forest_dataset_train s)"
    using inv by (simp_all add: run_inv_def)
  have len4: "length (forest_dataset_train s) = 4" using sh by (simp add: series_shaped_def)
  have n1: "aux_size (forest_dataset_train s) 1 = ?n" using sh by (simp add: series_shaped_def)
  have sh1: "series_shaped ?n K d1" and cu1: "cumulative_ok d1"
    using sh cu len4 n1
    by (simp_all add: d1_def s1_def before_latent_eq Let_def cumulative_ok_fold)
  have ser1: "get_auxiliary_data_array 1 d1 = predictions ext (active_forest s1) Train ?n"
  proof -
    have "aux_size (forest_dataset_train s) 1 = ?n" using sh by (simp add: series_shaped_def)
    then show ?thesis using len4
      by (simp add: d1_def s1_def before_latent_eq Let_def get_array_fold_upt predictions_map)
  qed
  have rng1: "\<forall>p\<in>set (enumerate 0 (outcome_train loc)). 0 \<le> snd p \<and> snd p < int (aux_size d1 3)"
  proof
    fix p assume "p \<in> set (enumerate 0 (outcome_train loc))"
    then have "snd p \<in> set (outcome_train loc)" by (rule snd_enumerate_in)
    then have "0 \<le> snd p" "snd p < K" using cats by auto
    moreover have "aux_size d1 3 = nat K" using sh1 by (simp add: series_shaped_def)
    ultimately show "0 \<le> snd p \<and> snd p < int (aux_size d1 3)" by simp
  qed
  have len1: "length d1 = 4" using sh1 by (simp add: series_shaped_def)
  have slots1: "\<forall>p\<in>set (enumerate 0 (outcome_train loc)). is_slot d1 0 (int (fst p))"
  proof
    fix p assume p: "p \<in> set (enumerate 0 (outcome_train loc))"
    obtain i y where "p = (i, y)" by (cases p)
    then have "fst p < ?n" using p by (simp add: in_set_enumerate_eq)
    moreover have "aux_size d1 0 = ?n" using sh1 by (simp add: series_shaped_def)
    ultimately show "is_slot d1 0 (int (fst p))" using len1 by (simp add: is_slot_def)
  qed
  from update_latent_succeeds [OF cu1 rng1 slots1, where ext = ext and r = "cpp_rng s1"]
  obtain d2 r2 where lat: "update_latent_variables ext (enumerate 0 (outcome_train loc)) d1 (cpp_rng s1)
        = Inr (d2, r2)"
    and len2: "length d2 = length d1" and size2: "\<forall>k. aux_size d2 k = aux_size d1 k"
    and cell2: "\<forall>k j. k \<noteq> 0 \<longrightarrow> aux_cell d2 k j = aux_cell d1 k j" by blast
  define s2 where "s2 = logged UpdateLatentVariables (s1\<lparr>forest_dataset_train := d2, cpp_rng := r2\<rparr>)"
  have l2: "latent_step ext loc s1 = Inr s2"
    using lat by (simp add: latent_step_def d1_def s2_def)
  define s3 where "s3 = cumsum_step (gamma_step ext a loc s2)"
  define d3 where "d3 = forest_dataset_train s3"
  have d3_eq: "d3 = update_cumulative_exp_sums
      (install_series 2 (fst (gamma_posterior ext (alpha_gamma a) (beta_gamma a) 0 (outcome_train loc) d2 r2)) d2)"
    by (simp add: d3_def s3_def cumsum_step_def gamma_step_def logged_def s2_def
        update_gamma_params_def Let_def)
  have sh3: "series_shaped ?n K d3"
    using sh1 len2 size2 by (simp add: d3_eq update_cumulative_exp_sums_def series_shaped_def)
  have cu3: "cumulative_ok d3"
    unfolding d3_eq by (rule cumulative_ok_update) (simp add: len2 len1)
  have ser3: "get_auxiliary_data_array 1 d3 = get_auxiliary_data_array 1 d1"
    using cell2 size2
    by (simp add: d3_eq get_array_eq update_cumulative_exp_sums_def aux_cell_install)
  have pos3: "list_all (\<lambda>z. 0 < z) (get_auxiliary_data_array 0 d3)"
    if u: "\<forall>r. 0 < fst (uniform ext r) \<and> fst (uniform ext r) < 1"
  proof -
    from update_latent_positive [OF cu1 rng1 u slots1 lat]
    have p2: "\<forall>j. j \<in> int ` fst ` set (enumerate 0 (outcome_train loc)) \<or> 0 < aux_cell d1 0 j
        \<longrightarrow> 0 < aux_cell d2 0 j" .
    have "0 < aux_cell d2 0 (int j)" if "j < ?n" for j
    proof -
      have "(j, outcome_train loc ! j) \<in> set (enumerate 0 (outcome_train loc))"
        using that by (simp add: in_set_enumerate_eq)
      then have "int j \<in> int ` fst ` set (enumerate 0 (outcome_train loc))" by force
      then show ?thesis using p2 by blast
    qed
    moreover have "aux_size d3 0 = ?n" using sh3 by (simp add: series_shaped_def)
    moreover have "aux_cell d3 0 j = aux_cell d2 0 j" for j
      by (simp add: d3_eq update_cumulative_exp_sums_def aux_cell_install)
    ultimately show ?thesis
      by (simp add: get_array_eq list_all_iff)
  qed
  have s3_fields: "active_forest s3 = active_forest s1" "snapshots s3 = snapshots s1"
    "sample_counter s3 = sample_counter s1"
    "train_columns s3 = train_columns s" "test_columns s3 = test_columns s"
    "gamma_columns s3 = gamma_columns s" "latent_columns s3 = latent_columns s"
    "trace s3 = trace s1 @ [UpdateLatentVariables, UpdateGammaParams (alpha_gamma a) (beta_gamma a) 0,
           UpdateCumulativeExpSums]"
    by (simp_all add: s3_def cumsum_step_def gamma_step_def logged_def s2_def Let_def s1_def
        before_latent_eq)
  have it: "iteration ext a loc i s = retain_step ext loc i s3"
    using l2 by (simp add: iteration_def s1_def [symmetric] before_latent_def [symmetric] s3_def)
  have sc1: "sample_counter s1 = (if ?keep then int (length (kept_before loc i)) else int (length (kept_before loc i)) - 1)"
    using inv by (simp add: s1_def before_latent_eq Let_def run_inv_def)
  have lens: "length (train_columns s) = length (keep_idx loc)" "length (test_columns s) = length (keep_idx loc)"
    "length (gamma_columns s) = length (keep_idx loc)" "length (latent_columns s) = length (keep_idx loc)"
    using inv by (simp_all add: run_inv_def)
  show ?thesis
  proof (cases ?keep)
    case False
    then have "iteration ext a loc i s = Inr s3" using it by (simp add: retain_step_def)
    moreover have "run_inv loc K (Suc i) s3"
      using False sh3 cu3 lens sc1 s3_fields
      by (simp add: run_inv_def d3_def [symmetric] kept_before_Suc)
    ultimately show ?thesis
      using False s3_fields ser3 ser1 pos3
      by (simp add: s1_def [symmetric] d3_def [symmetric] retain_events_def)
  next
    case True
    let ?c = "length (kept_before loc i)"
    have cb: "?c < length (keep_idx loc)"
      unfolding kept_before_def by (rule kept_before_bound [OF True])
    have sc3: "sample_counter s3 = int ?c" using True sc1 s3_fields by simp
    define s4 where "s4 =
       s3\<lparr>trace := trace s3 @ retain_events loc i,
          train_columns := (train_columns s)[?c := Some (predictions ext (active_forest s1) Train ?n)],
          test_columns := (case test_rows loc of None \<Rightarrow> test_columns s
             | Some nt \<Rightarrow> (test_columns s)[?c := Some (predictions ext (active_forest s1) Test nt)]),
          gamma_columns := (gamma_columns s)[?c := Some (get_auxiliary_data_array 2 d3)],
          latent_columns := (latent_columns s)[?c := Some (get_auxiliary_data_array 0 d3)]\<rparr>"
    have "retain_step ext loc i s3 = Inr s4"
      using True cb sc3 s3_fields lens
      by (simp add: retain_step_def keep_train_def keep_test_def keep_gamma_def keep_latent_def
          put_column_ok logged_def Let_def s4_def retain_events_def d3_def
          split: option.splits)
    then have "iteration ext a loc i s = Inr s4" using it by simp
    moreover have "run_inv loc K (Suc i) s4"
      using True sh3 cu3 lens sc3
      by (simp add: run_inv_def s4_def d3_def [symmetric] kept_before_Suc split: option.splits)
    ultimately show ?thesis
      using True s3_fields ser3 ser1 pos3
      by (simp add: s1_def [symmetric] d3_def [symmetric] s4_def split: option.splits)
  qed
qed

lemma run_iterations_append:
  "run_iterations ext a loc (xs @ ys) s =
     seq (run_iterations ext a loc xs s) (run_iterations ext a loc ys)"
  by (induction xs arbitrary: s) (auto simp: seq_def split: sum.splits)

lemma run_iterations_single: "run_iterations ext a loc [k] = iteration ext a loc k"
  by (rule ext) (simp add: seq_def split: sum.splits)

lemma run_iterations_Suc:
  "run_iterations ext a loc [0..<Suc k] s =
     seq (run_iterations ext a loc [0..<k] s) (iteration ext a loc k)"
  by (simp add: run_iterations_append run_iterations_single)

lemma run_ok:
  fixes ext :: "('f, 'r) externals"
  assumes "run_inv loc K 0 s0" "\<forall>y\<in>set (outcome_train loc). 0 \<le> y \<and> y < K"
  shows "\<exists>s. run_iterations ext a loc [0..<k] s0 = Inr s \<and> run_inv loc K k s"
proof (induction k)
  case 0
  then show ?case using assms(1) by simp
next
  case (Suc k)
  then obtain s where s: "run_iterations ext a loc [0..<k] s0 = Inr s" "run_inv loc K k s" by blast
  from iteration_ok [OF s(2) assms(2), where ext = ext and a = a]
  obtain s' where "iteration ext a loc k s = Inr s'" "run_inv loc K (Suc k) s'" by blast
  then show ?case using s by (simp add: run_iterations_Suc del: upt_Suc)
qed

lemma data_checks_Inr:
  "data_checks a = Inr vs \<Longrightarrow>
     \<exists>el. y_train a = Ndarray el \<and> vs = ints el \<and> el \<noteq> OtherDtype \<and>
       \<not> list_ex (\<lambda>v. v < 0) vs \<and>
       length vs = fst (shape (X_train a)) \<and> is_tabular (X_train a)"
  by (auto simp: data_checks_def split: if_splits outcome.splits)

lemma ints_range:
  assumes "v \<in> set (ints el)"
  shows "- (2 ^ (bits el - 1)) \<le> v" "v < 2 ^ (bits el - 1)"
proof -
  have "- (2 ^ (bits el - 1)) \<le> v \<and> v < 2 ^ (bits el - 1)"
  proof (cases el)
    case (Int32 ws)
    then obtain x :: "32 word" where "v = sint x" using assms by auto
    then show ?thesis using Int32 sint_ge [of x] sint_lt [of x] by simp
  next
    case (Int64 ws)
    then obtain x :: "64 word" where "v = sint x" using assms by auto
    then show ?thesis using Int64 sint_ge [of x] sint_lt [of x] by simp
  next
    case OtherDtype
    then show ?thesis using assms by simp
  qed
  then show "- (2 ^ (bits el - 1)) \<le> v" "v < 2 ^ (bits el - 1)" by simp_all
qed

lemma bits_positive: "0 < bits el"
  by (cases el) simp_all

lemma wrap_inside:
  assumes "0 < w" "- (2 ^ (w - 1)) \<le> x" "x < 2 ^ (w - 1)"
  shows "wrap w x = x"
proof -
  have p: "(2::int) ^ w = 2 * 2 ^ (w - 1)" using assms(1) by (cases w) simp_all
  have "0 \<le> x + 2 ^ (w - 1)" "x + 2 ^ (w - 1) < 2 ^ w" using assms(2,3) p by simp_all
  then have "(x + 2 ^ (w - 1)) mod 2 ^ w = x + 2 ^ (w - 1)" by (rule mod_pos_pos_trivial)
  then show ?thesis by (simp add: wrap_def)
qed

lemma wrap_top:
  assumes "0 < w"
  shows "wrap w (2 ^ (w - 1)) = - (2 ^ (w - 1))"
proof -
  have p: "(2::int) ^ w = 2 * 2 ^ (w - 1)" using assms(1) by (cases w) simp_all
  have "((2::int) ^ (w - 1) + 2 ^ (w - 1)) mod 2 ^ w = 0" using p by simp
  then show ?thesis by (simp add: wrap_def)
qed

text \<open>
  For non-negative elements the number of categories is the largest value plus one, unless
  that value is the largest number of the element type: then it is the smallest number of
  the type.
\<close>

lemma wrap_levels:
  assumes "vs = ints el" "vs \<noteq> []" "\<not> list_ex (\<lambda>v. v < 0) vs"
  shows "wrap (bits el) (Max (set vs) + 1) =
     (if Max (set vs) = 2 ^ (bits el - 1) - 1 then - (2 ^ (bits el - 1)) else Max (set vs) + 1)"
    and "0 \<le> Max (set vs)" and "Max (set vs) < 2 ^ (bits el - 1)"
proof -
  have m: "Max (set vs) \<in> set vs" using assms(2) by simp
  then show lo: "0 \<le> Max (set vs)" using assms(3) by (auto simp: list_ex_iff not_less)
  show hi: "Max (set vs) < 2 ^ (bits el - 1)" using m assms(1) ints_range(2) by blast
  show "wrap (bits el) (Max (set vs) + 1) =
     (if Max (set vs) = 2 ^ (bits el - 1) - 1 then - (2 ^ (bits el - 1)) else Max (set vs) + 1)"
  proof (cases "Max (set vs) = 2 ^ (bits el - 1) - 1")
    case True
    then show ?thesis using wrap_top [OF bits_positive, of el] by simp
  next
    case False
    then have "Max (set vs) + 1 < 2 ^ (bits el - 1)" using hi by simp
    moreover have "- (2 ^ (bits el - 1)) \<le> Max (set vs) + 1"
    proof -
      have "(0::int) \<le> 2 ^ (bits el - 1)" by simp
      then show ?thesis using lo by linarith
    qed
    ultimately show ?thesis using False wrap_inside [OF bits_positive] by simp
  qed
qed

lemma accepted_outcome:
  assumes "accepted ext a"
  shows "\<exists>el. y_train a = Ndarray el \<and> data_checks a = Inr (ints el) \<and> ints el \<noteq> [] \<and>
     1 \<le> Max (set (ints el)) \<and> call_levels a = Max (set (ints el)) + 1 \<and>
     outcome_levels (element_bits (y_train a)) (ints el) = Inr (Max (set (ints el)) + 1) \<and>
     \<not> list_ex (\<lambda>v. v < 0) (ints el)"
proof -
  from assms obtain vs where dc: "data_checks a = Inr vs"
    and lv: "case outcome_levels (element_bits (y_train a)) vs of Inl _ \<Rightarrow> False | Inr K \<Rightarrow> 2 \<le> K"
    by (auto simp: accepted_def split: sum.splits)
  from data_checks_Inr [OF dc] obtain el where y: "y_train a = Ndarray el" and v: "vs = ints el"
    and nn: "\<not> list_ex (\<lambda>v. v < 0) vs" by blast
  have ne: "vs \<noteq> []" using lv by (auto simp: outcome_levels_def split: if_splits)
  have two: "2 \<le> wrap (bits el) (Max (set vs) + 1)"
    using lv ne y by (simp add: outcome_levels_def element_bits_def)
  note w = wrap_levels [OF v ne nn]
  have pos: "(0::int) < 2 ^ (bits el - 1)" by simp
  have nt: "Max (set vs) \<noteq> 2 ^ (bits el - 1) - 1"
  proof
    assume "Max (set vs) = 2 ^ (bits el - 1) - 1"
    then have "wrap (bits el) (Max (set vs) + 1) = - (2 ^ (bits el - 1))" using w(1) by simp
    then show False using two pos by linarith
  qed
  then have e: "wrap (bits el) (Max (set vs) + 1) = Max (set vs) + 1" using w(1) by simp
  then have "1 \<le> Max (set vs)" using two by simp
  then show ?thesis using y dc v ne e nn
    by (auto simp: call_levels_def outcome_levels_def element_bits_def)
qed

lemma prepare_accepted:
  assumes "accepted ext a"
  shows "\<exists>m4. prepare ext entropy a m = Inr (call_locals ext a, m4, initial_sampler ext entropy a) \<and>
     sampled m4 = sampled m \<and> n_levels m4 = Some (call_levels a) \<and>
     n_train m4 = Some (length (outcome_train (call_locals ext a))) \<and>
     has_test m4 = Some (X_test a \<noteq> None)"
proof -
  from accepted_outcome [OF assms] obtain el where y: "y_train a = Ndarray el"
    and dc: "data_checks a = Inr (ints el)"
    and K: "call_levels a = Max (set (ints el)) + 1" and mx: "1 \<le> Max (set (ints el))"
    and ol: "outcome_levels (element_bits (y_train a)) (ints el) = Inr (Max (set (ints el)) + 1)"
    by blast
  from assms dc have acc: "weight_checks a = Inr ()" "\<not> isl (transform ext (X_train a) (X_train a))"
    "case X_test a of None \<Rightarrow> True | Some X \<Rightarrow> \<not> isl (transform ext (X_train a) X)"
    "n_thin a \<noteq> 0"
    "case seed a of None \<Rightarrow> True | Some s \<Rightarrow> 0 \<le> s \<and> \<not> isl (seeded_rng ext s)"
    by (simp_all add: accepted_def)
  obtain kidx where k: "keep_indices a = Inr kidx"
    using acc(4) by (auto simp: keep_indices_def arange_def)
  obtain tr where tr: "transform ext (X_train a) (X_train a) = Inr tr"
    using acc(2) by (cases "transform ext (X_train a) (X_train a)") auto
  obtain r where r: "make_rng ext entropy a = Inr r"
  proof (cases "seed a")
    case None
    then have "make_rng ext entropy a = Inr entropy" by (simp add: make_rng_def RNG_def)
    then show ?thesis by (rule that)
  next
    case (Some sd)
    then have sd: "0 \<le> sd" "\<not> isl (seeded_rng ext sd)" using acc(5) by simp_all
    then obtain r' where "seeded_rng ext sd = Inr r'" by (cases "seeded_rng ext sd") auto
    then have "make_rng ext entropy a = Inr r'" using Some sd(1) by (simp add: make_rng_def RNG_def)
    then show ?thesis by (rule that)
  qed
  have lv: "levels (element_bits (y_train a)) (ints el) mm
      = Inr (call_levels a, mm\<lparr>n_levels := Some (call_levels a)\<rparr>)" for mm :: "'a model"
    using ol K mx by (simp add: levels_def check_levels_def)
  show ?thesis
    using dc y acc(1,3) k tr r
    by (auto simp: prepare_def preprocess_and_dims_def lv lv [unfolded y] make_containers_def
        Let_def call_locals_def call_rng_def initial_sampler_def
        split: option.splits sum.splits)
qed

lemma prepare_succeeds_iff:
  "(\<exists>x. prepare ext entropy a m = Inr x) \<longleftrightarrow> accepted ext a"
proof
  assume "accepted ext a"
  from prepare_accepted [OF this, of entropy m] show "\<exists>x. prepare ext entropy a m = Inr x" by blast
next
  assume "\<exists>x. prepare ext entropy a m = Inr x"
  then show "accepted ext a"
    by (auto simp: prepare_def accepted_def preprocess_and_dims_def levels_def
        check_levels_def make_rng_def RNG_def keep_indices_def arange_def Let_def
        split: option.splits sum.splits if_splits)
qed

lemma init_aux_eq:
  "forest_dataset_train s = [] \<Longrightarrow>
   init_aux ext n K s =
     s\<lparr>forest_dataset_train := init_dataset (stray_write ext) n K,
       trace := trace s @ init_events n K\<rparr>"
  by (simp add: init_aux_def init_dataset_def fresh_dataset_def init_events_def add_aux_def
      cumsum_step_def logged_def fold_set_aux Let_def)

lemma fresh_dataset_sizes:
  "length (fresh_dataset n K) = 4" "aux_size (fresh_dataset n K) 0 = n"
  "aux_size (fresh_dataset n K) (Suc 0) = n" "aux_size (fresh_dataset n K) 2 = nat (K - 1)"
  "aux_size (fresh_dataset n K) 3 = nat K"
  by (simp_all add: fresh_dataset_def aux_size_add_dim)

lemma series_shaped_init: "series_shaped n K (init_dataset st n K)"
  by (simp add: init_dataset_def series_shaped_def update_cumulative_exp_sums_def
      fresh_dataset_sizes)

lemma cumulative_ok_init: "cumulative_ok (init_dataset st n K)"
  unfolding init_dataset_def
  by (simp add: cumulative_ok_fold cumulative_ok_update fresh_dataset_sizes)

lemma initial_sampler_eq:
  "initial_sampler ext entropy a =
     (new_sampler ext a (length (keep_idx (call_locals ext a))) (call_rng ext entropy a))
       \<lparr>forest_dataset_train :=
          init_dataset (stray_write ext) (length (outcome_train (call_locals ext a)))
            (call_levels a),
        trace := init_events (length (outcome_train (call_locals ext a))) (call_levels a)\<rparr>"
  by (simp add: initial_sampler_def init_aux_eq new_sampler_def)

lemma run_inv_initial:
  "run_inv (call_locals ext a) (call_levels a) 0 (initial_sampler ext entropy a)"
  by (simp add: run_inv_def initial_sampler_eq new_sampler_def series_shaped_init
      cumulative_ok_init kept_before_def)

lemma categories_in_range:
  assumes "accepted ext a"
  shows "\<forall>y\<in>set (outcome_train (call_locals ext a)). 0 \<le> y \<and> y < call_levels a"
proof -
  from accepted_outcome [OF assms] obtain el where y: "y_train a = Ndarray el"
    and K: "call_levels a = Max (set (ints el)) + 1"
    and nn: "\<not> list_ex (\<lambda>v. v < 0) (ints el)" by blast
  have "v \<le> Max (set (ints el))" if "v \<in> set (ints el)" for v
    using that by (intro Max_ge) simp_all
  then show ?thesis using y nn K
    by (auto simp: call_locals_def list_ex_iff not_less intro: le_less_trans)
qed

lemma state_after_accepted:
  assumes "accepted ext a"
  shows "\<exists>s. state_after ext entropy a m k = Some s \<and>
           run_iterations ext a (call_locals ext a) [0..<k] (initial_sampler ext entropy a) = Inr s \<and>
           run_inv (call_locals ext a) (call_levels a) k s"
proof -
  from prepare_accepted [OF assms, of entropy m] obtain m4 where
    p: "prepare ext entropy a m = Inr (call_locals ext a, m4, initial_sampler ext entropy a)" by blast
  have ri: "run_inv (call_locals ext a) (call_levels a) 0 (initial_sampler ext entropy a)"
    by (rule run_inv_initial)
  from run_ok [OF ri categories_in_range [OF assms], where ext = ext and a = a and k = k]
  obtain s where "run_iterations ext a (call_locals ext a) [0..<k] (initial_sampler ext entropy a) = Inr s"
    "run_inv (call_locals ext a) (call_levels a) k s" by blast
  then show ?thesis using p by (simp add: state_after_def)
qed

lemma state_after_0:
  "accepted ext a \<Longrightarrow> state_after ext entropy a m 0 = Some (initial_sampler ext entropy a)"
  using state_after_accepted [of ext a entropy m 0] by auto

lemma state_after_Suc:
  assumes "accepted ext a" "state_after ext entropy a m k = Some s"
  shows "\<exists>s'. state_after ext entropy a m (Suc k) = Some s' \<and>
           iteration ext a (call_locals ext a) k s = Inr s'"
proof -
  from state_after_accepted [OF assms(1), of entropy m k] assms(2)
  have r: "run_iterations ext a (call_locals ext a) [0..<k] (initial_sampler ext entropy a) = Inr s"
    by auto
  from state_after_accepted [OF assms(1), of entropy m "Suc k"]
  obtain s' where s': "state_after ext entropy a m (Suc k) = Some s'"
    "run_iterations ext a (call_locals ext a) [0..<Suc k] (initial_sampler ext entropy a) = Inr s'"
    by blast
  from s'(2) r have "iteration ext a (call_locals ext a) k s = Inr s'"
    by (simp add: run_iterations_Suc del: upt_Suc)
  then show ?thesis using s' by simp
qed

lemma sample_accepted:
  assumes "accepted ext a"
  shows "\<exists>s m4. state_after ext entropy a m (nat (num_gfr a + num_burnin a + num_mcmc a)) = Some s \<and>
     prepare ext entropy a m = Inr (call_locals ext a, m4, initial_sampler ext entropy a) \<and>
     sample ext entropy a m =
       Completed ((publish (call_locals ext a) s m4)\<lparr>sampled := True\<rparr>) (trace s)"
proof -
  let ?T = "nat (num_gfr a + num_burnin a + num_mcmc a)"
  from prepare_accepted [OF assms, of entropy m] obtain m4 where
    p: "prepare ext entropy a m = Inr (call_locals ext a, m4, initial_sampler ext entropy a)" by blast
  from state_after_accepted [OF assms, of entropy m ?T]
  obtain s where s: "state_after ext entropy a m ?T = Some s"
    "run_iterations ext a (call_locals ext a) [0..<?T] (initial_sampler ext entropy a) = Inr s"
    by blast
  show ?thesis using p s by (simp add: sample_def)
qed

lemma forest_calls_append [simp]: "forest_calls (xs @ ys) = forest_calls xs @ forest_calls ys"
  by (simp add: forest_calls_def)

lemma forest_calls_Nil [simp]: "forest_calls [] = []"
  by (simp add: forest_calls_def)

lemma forest_calls_Cons [simp]:
  "forest_calls (e # tr) =
     (case e of SampleOneIteration _ _ _ \<Rightarrow> e # forest_calls tr | _ \<Rightarrow> forest_calls tr)"
  by (simp add: forest_calls_def split: event.splits)

lemma forest_calls_set_events [simp]:
  "forest_calls (map (\<lambda>j. SetAuxiliaryDataValue ser (f j) (g j)) xs) = []"
  by (induction xs) simp_all

lemma forest_calls_retain [simp]: "forest_calls (retain_events loc i) = []"
  by (simp add: retain_events_def split: option.splits)

lemma forest_calls_init [simp]: "forest_calls (init_events n K) = []"
  by (simp add: init_events_def)

lemma iteration_trace:
  fixes ext :: "('f, 'r) externals"
  assumes "run_inv loc K i s" "\<forall>y\<in>set (outcome_train loc). 0 \<le> y \<and> y < K"
    and "iteration ext a loc i s = Inr s'"
  shows "active_forest s' =
           fst (forest_update ext (int i \<in> set (keep_idx loc)) (int i > num_gfr a - 1)
                  (num_threads a) (outcome_train loc) (active_forest s) (forest_dataset_train s)
                  (cpp_rng s))"
    and "trace s' = trace s
           @ [SampleOneIteration (int i \<in> set (keep_idx loc)) (int i > num_gfr a - 1) (num_threads a),
              Predict Train]
           @ map (\<lambda>j. SetAuxiliaryDataValue 1 (int j) (predict_row ext (active_forest s') Train j))
               [0..<length (outcome_train loc)]
           @ [UpdateLatentVariables, UpdateGammaParams (alpha_gamma a) (beta_gamma a) 0,
              UpdateCumulativeExpSums]
           @ retain_events loc i"
    and "get_auxiliary_data_array 1 (forest_dataset_train s')
           = predictions ext (active_forest s') Train (length (outcome_train loc))"
proof -
  from iteration_ok [OF assms(1,2), where ext = ext and a = a] assms(3)
  have f: "active_forest s' = active_forest (before_latent ext a loc i s)"
    and t: "trace s' = trace (before_latent ext a loc i s)
        @ [UpdateLatentVariables, UpdateGammaParams (alpha_gamma a) (beta_gamma a) 0,
           UpdateCumulativeExpSums] @ retain_events loc i"
    and g: "get_auxiliary_data_array 1 (forest_dataset_train s')
       = predictions ext (active_forest s') Train (length (outcome_train loc))"
    by auto
  show "active_forest s' =
           fst (forest_update ext (int i \<in> set (keep_idx loc)) (int i > num_gfr a - 1)
                  (num_threads a) (outcome_train loc) (active_forest s) (forest_dataset_train s)
                  (cpp_rng s))"
    using f by (simp add: before_latent_eq Let_def)
  then show "trace s' = trace s
           @ [SampleOneIteration (int i \<in> set (keep_idx loc)) (int i > num_gfr a - 1) (num_threads a),
              Predict Train]
           @ map (\<lambda>j. SetAuxiliaryDataValue 1 (int j) (predict_row ext (active_forest s') Train j))
               [0..<length (outcome_train loc)]
           @ [UpdateLatentVariables, UpdateGammaParams (alpha_gamma a) (beta_gamma a) 0,
              UpdateCumulativeExpSums]
           @ retain_events loc i"
    using t by (simp add: before_latent_eq Let_def predictions_nth cong: map_cong)
  show "get_auxiliary_data_array 1 (forest_dataset_train s')
           = predictions ext (active_forest s') Train (length (outcome_train loc))"
    by (rule g)
qed

lemma run_forest_calls:
  fixes ext :: "('f, 'r) externals"
  assumes "run_inv loc K 0 s0" "\<forall>y\<in>set (outcome_train loc). 0 \<le> y \<and> y < K"
    and "run_iterations ext a loc [0..<k] s0 = Inr s"
  shows "forest_calls (trace s) = forest_calls (trace s0)
     @ map (\<lambda>i. SampleOneIteration (int i \<in> set (keep_idx loc)) (int i > num_gfr a - 1)
                (num_threads a)) [0..<k]"
  using assms(3)
proof (induction k arbitrary: s)
  case 0
  then show ?case by simp
next
  case (Suc k)
  from run_ok [OF assms(1,2), where ext = ext and a = a and k = k]
  obtain sk where sk: "run_iterations ext a loc [0..<k] s0 = Inr sk" "run_inv loc K k sk" by blast
  from Suc.prems sk have it: "iteration ext a loc k sk = Inr s"
    by (simp add: run_iterations_Suc del: upt_Suc)
  from iteration_trace(2) [OF sk(2) assms(2) it] Suc.IH [OF sk(1)]
  show ?case by simp
qed

subsection \<open>Validation and categories\<close>

lemma accepted_demo: "accepted demo_ext demo_args"
  by (simp add: accepted_def demo_ext_def demo_args_def data_checks_def weight_checks_def
      outcome_levels_def element_bits_def wrap_def)

lemma data_checks_rejects:
  assumes "y_train a = NotNdarray \<or> y_train a = Ndarray OtherDtype
     \<or> (\<exists>el. y_train a = Ndarray el \<and> list_ex (\<lambda>v. v < 0) (ints el))
     \<or> (\<exists>X. X_test a = Some X \<and> snd (shape X) \<noteq> snd (shape (X_train a)))
     \<or> (\<exists>el. y_train a = Ndarray el \<and> length (ints el) \<noteq> fst (shape (X_train a)))"
  shows "\<exists>msg. data_checks a = Inl (ValueError msg)"
  using assms by (auto simp: data_checks_def split: option.splits outcome.splits)

lemma sample_data_checks_raise:
  "data_checks a = Inl e \<Longrightarrow> sample ext entropy a m = Raised e m []"
  by (simp add: sample_def prepare_def)

lemma preprocess_sampling_state:
  "preprocess_and_dims ext a vs m = Inl em \<Longrightarrow> sampling_state (snd em) = sampling_state m"
  "preprocess_and_dims ext a vs m = Inr rm \<Longrightarrow> sampling_state (snd rm) = sampling_state m"
  by (auto simp: preprocess_and_dims_def Let_def sampling_state_def split: sum.splits option.splits)

lemma levels_few:
  assumes "\<not> list_ex (\<lambda>v. 1 \<le> v) (ints el)"
  shows "\<exists>msg m'. levels (bits el) (ints el) m = Inl (ValueError msg, m') \<and>
     sampling_state m' = sampling_state m
     \<and> (ints el \<noteq> [] \<longrightarrow> msg = ''y_train must have at least 2 outcome categories'')"
proof (cases "ints el = []")
  case True
  then show ?thesis by (simp add: levels_def outcome_levels_def)
next
  case False
  have lt: "Max (set (ints el)) < 1"
    using assms False by (subst Max_less_iff) (auto simp: list_ex_iff not_le)
  have m: "Max (set (ints el)) \<in> set (ints el)" using False by simp
  have p: "(1::int) < 2 ^ (bits el - 1)" by (cases el) simp_all
  have "wrap (bits el) (Max (set (ints el)) + 1) = Max (set (ints el)) + 1"
    by (rule wrap_inside [OF bits_positive]) (use ints_range(1) [OF m] lt p in linarith)+
  then show ?thesis using False lt
    by (simp add: levels_def outcome_levels_def check_levels_def sampling_state_def)
qed

lemma sample_few_levels:
  assumes "y_train a = Ndarray el" "\<not> list_ex (\<lambda>v. 1 \<le> v) (ints el)"
  shows "\<exists>e m'. sample ext entropy a m = Raised e m' [] \<and> sampling_state m' = sampling_state m \<and>
     (weight_checks a = Inr () \<and> \<not> isl (transform ext (X_train a) (X_train a)) \<and>
      (case X_test a of None \<Rightarrow> True | Some X \<Rightarrow> \<not> isl (transform ext (X_train a) X))
        \<longrightarrow> (\<exists>msg. e = ValueError msg))"
proof (cases "data_checks a")
  case (Inl e)
  moreover have "\<exists>msg. e = ValueError msg"
    using Inl by (auto simp: data_checks_def split: if_splits option.splits outcome.splits)
  ultimately show ?thesis by (auto simp: sample_data_checks_raise)
next
  case (Inr vs')
  from data_checks_Inr [OF Inr] assms(1) have vs': "vs' = ints el" by auto
  have eb: "element_bits (y_train a) = bits el" using assms(1) by (simp add: element_bits_def)
  show ?thesis
  proof (cases "weight_checks a")
    case (Inl e)
    then show ?thesis using Inr by (simp add: sample_def prepare_def)
  next
    case wc: (Inr u)
    show ?thesis
    proof (cases "preprocess_and_dims ext a (ints el) m")
      case (Inl em)
      then have "sample ext entropy a m = Raised (fst em) (snd em) []"
        using Inr wc vs' by (simp add: sample_def prepare_def)
      moreover have "sampling_state (snd em) = sampling_state m"
        by (rule preprocess_sampling_state(1) [OF Inl])
      moreover have "isl (transform ext (X_train a) (X_train a)) \<or>
         (case X_test a of None \<Rightarrow> False | Some X \<Rightarrow> isl (transform ext (X_train a) X))"
        using Inl by (auto simp: preprocess_and_dims_def Let_def split: sum.splits option.splits)
      ultimately show ?thesis by (auto split: option.splits)
    next
      case (Inr rm)
      from levels_few [OF assms(2), of "snd rm"] obtain msg m' where
        l: "levels (bits el) (ints el) (snd rm) = Inl (ValueError msg, m')"
          "sampling_state m' = sampling_state (snd rm)"
        by blast
      have "sample ext entropy a m = Raised (ValueError msg) m' []"
        using \<open>data_checks a = Inr vs'\<close> wc vs' Inr l(1) eb by (simp add: sample_def prepare_def)
      moreover have "sampling_state m' = sampling_state m"
        using l(2) preprocess_sampling_state(2) [OF Inr] by simp
      ultimately show ?thesis by auto
    qed
  qed
qed

lemma publish_fields [simp]:
  "n_levels (publish loc s m) = n_levels m" "sampled (publish loc s m) = sampled m"
  "forest_pred_train (publish loc s m) = Some (train_columns s)"
  "gamma_samples (publish loc s m) = Some (gamma_columns s)"
  "latent_samples (publish loc s m) = Some (latent_columns s)"
  "forest_samples (publish loc s m) = Some (snapshots s)"
  by (simp_all add: publish_def)

lemma call_locals_fields:
  "data_checks a = Inr vs \<Longrightarrow> outcome_train (call_locals ext a) = vs"
  "keep_indices a = Inr kidx \<Longrightarrow> keep_idx (call_locals ext a) = kidx"
  "accepted ext a \<Longrightarrow> (test_rows (call_locals ext a) = None) = (X_test a = None)"
proof -
  show "data_checks a = Inr vs \<Longrightarrow> outcome_train (call_locals ext a) = vs"
    by (auto simp: call_locals_def dest: data_checks_Inr)
  show "keep_indices a = Inr kidx \<Longrightarrow> keep_idx (call_locals ext a) = kidx"
    by (simp add: call_locals_def)
  show "accepted ext a \<Longrightarrow> (test_rows (call_locals ext a) = None) = (X_test a = None)"
    by (auto simp: call_locals_def accepted_def split: sum.splits option.splits)
qed


lemma sample_forest_calls:
  fixes ext :: "('f, 'r) externals"
  assumes "accepted ext a" "keep_indices a = Inr kidx"
  shows "\<exists>s m4. state_after ext entropy a m (nat (num_gfr a + num_burnin a + num_mcmc a)) = Some s \<and>
     sample ext entropy a m = Completed ((publish (call_locals ext a) s m4)\<lparr>sampled := True\<rparr>) (trace s) \<and>
     run_inv (call_locals ext a) (call_levels a) (nat (num_gfr a + num_burnin a + num_mcmc a)) s \<and>
     n_levels m4 = Some (call_levels a) \<and>
     forest_calls (trace s) =
       map (\<lambda>i. SampleOneIteration (int i \<in> set kidx) (int i > num_gfr a - 1) (num_threads a))
         [0..<nat (num_gfr a + num_burnin a + num_mcmc a)]"
proof -
  let ?T = "nat (num_gfr a + num_burnin a + num_mcmc a)"
  let ?loc = "call_locals ext a"
  from sample_accepted [OF assms(1), of entropy m] obtain s m4 where
    s: "state_after ext entropy a m ?T = Some s"
    and p: "prepare ext entropy a m = Inr (?loc, m4, initial_sampler ext entropy a)"
    and c: "sample ext entropy a m = Completed ((publish ?loc s m4)\<lparr>sampled := True\<rparr>) (trace s)"
    by blast
  from prepare_accepted [OF assms(1), of entropy m] p have nl: "n_levels m4 = Some (call_levels a)"
    by auto
  from state_after_accepted [OF assms(1), of entropy m ?T] s
  have r: "run_iterations ext a ?loc [0..<?T] (initial_sampler ext entropy a) = Inr s"
    and inv: "run_inv ?loc (call_levels a) ?T s" by auto
  have ri: "run_inv ?loc (call_levels a) 0 (initial_sampler ext entropy a)" by (rule run_inv_initial)
  from run_forest_calls [OF ri categories_in_range [OF assms(1)] r]
  have "forest_calls (trace s) =
       map (\<lambda>i. SampleOneIteration (int i \<in> set kidx) (int i > num_gfr a - 1) (num_threads a)) [0..<?T]"
    by (simp add: initial_sampler_eq call_locals_fields(2) [OF assms(2)])
  then show ?thesis using s c inv nl by blast
qed





text \<open>
  C6.  An outcome that is not an array or has another element type than the two integer
  types, a negative outcome value, test covariates with another number of columns, or an
  outcome vector with another number of rows than the training covariates makes \<open>sample\<close>
  raise a \<open>ValueError\<close> with the model object unchanged and an empty trace.  An outcome
  vector without a value above 0 (fewer than two categories) makes \<open>sample\<close> raise with an
  empty trace, so no iteration ran, and with the sampling state of the model unchanged; what
  is raised is a \<open>ValueError\<close> when the weight check and the preprocessor raised nothing.
\<close>

theorem validation_errors_before_sampling:
  "(y_train a = NotNdarray \<or> y_train a = Ndarray OtherDtype
     \<or> (\<exists>el. y_train a = Ndarray el \<and> list_ex (\<lambda>v. v < 0) (ints el))
     \<or> (\<exists>X. X_test a = Some X \<and> snd (shape X) \<noteq> snd (shape (X_train a)))
     \<or> (\<exists>el. y_train a = Ndarray el \<and> length (ints el) \<noteq> fst (shape (X_train a)))
     \<longrightarrow> (\<exists>msg. sample ext entropy a m = Raised (ValueError msg) m []))
   \<and> ((\<exists>el. y_train a = Ndarray el \<and> \<not> list_ex (\<lambda>v. 1 \<le> v) (ints el))
     \<longrightarrow> (\<exists>e m'. sample ext entropy a m = Raised e m' [] \<and> sampling_state m' = sampling_state m \<and>
           (weight_checks a = Inr () \<and> \<not> isl (transform ext (X_train a) (X_train a)) \<and>
            (case X_test a of None \<Rightarrow> True | Some X \<Rightarrow> \<not> isl (transform ext (X_train a) X))
              \<longrightarrow> (\<exists>msg. e = ValueError msg))))"
proof (intro conjI impI)
  assume "y_train a = NotNdarray \<or> y_train a = Ndarray OtherDtype
     \<or> (\<exists>el. y_train a = Ndarray el \<and> list_ex (\<lambda>v. v < 0) (ints el))
     \<or> (\<exists>X. X_test a = Some X \<and> snd (shape X) \<noteq> snd (shape (X_train a)))
     \<or> (\<exists>el. y_train a = Ndarray el \<and> length (ints el) \<noteq> fst (shape (X_train a)))"
  from data_checks_rejects [OF this] obtain msg where "data_checks a = Inl (ValueError msg)" by blast
  then show "\<exists>msg. sample ext entropy a m = Raised (ValueError msg) m []"
    by (auto simp: sample_data_checks_raise)
next
  assume "\<exists>el. y_train a = Ndarray el \<and> \<not> list_ex (\<lambda>v. 1 \<le> v) (ints el)"
  then obtain el where "y_train a = Ndarray el" "\<not> list_ex (\<lambda>v. 1 \<le> v) (ints el)" by blast
  from sample_few_levels [OF this]
  show "\<exists>e m'. sample ext entropy a m = Raised e m' [] \<and> sampling_state m' = sampling_state m \<and>
           (weight_checks a = Inr () \<and> \<not> isl (transform ext (X_train a) (X_train a)) \<and>
            (case X_test a of None \<Rightarrow> True | Some X \<Rightarrow> \<not> isl (transform ext (X_train a) X))
              \<longrightarrow> (\<exists>msg. e = ValueError msg))" .
qed

theorem validation_errors_witness:
  "(\<exists>msg. sample demo_ext 0 (demo_args\<lparr>y_train := Ndarray (Int64 [0, - 1])\<rparr>) init_model
      = Raised (ValueError msg) init_model []) \<and>
   (\<exists>e m'. sample demo_ext 0 (demo_args\<lparr>y_train := Ndarray (Int64 [0, 0])\<rparr>) init_model
      = Raised e m' [] \<and> sampling_state m' = sampling_state (init_model :: nat model) \<and>
        (\<exists>msg. e = ValueError msg))"
proof -
  have h1: "\<exists>el. y_train (demo_args\<lparr>y_train := Ndarray (Int64 [0, - 1])\<rparr>) = Ndarray el
      \<and> list_ex (\<lambda>v. v < 0) (ints el)" by simp
  have h2: "\<exists>el. y_train (demo_args\<lparr>y_train := Ndarray (Int64 [0, 0])\<rparr>) = Ndarray el
      \<and> \<not> list_ex (\<lambda>v. 1 \<le> v) (ints el)" by simp
  have h3: "weight_checks (demo_args\<lparr>y_train := Ndarray (Int64 [0, 0])\<rparr>) = Inr () \<and>
      \<not> isl (transform demo_ext (X_train (demo_args\<lparr>y_train := Ndarray (Int64 [0, 0])\<rparr>))
               (X_train (demo_args\<lparr>y_train := Ndarray (Int64 [0, 0])\<rparr>))) \<and>
      (case X_test (demo_args\<lparr>y_train := Ndarray (Int64 [0, 0])\<rparr>) of None \<Rightarrow> True
       | Some X \<Rightarrow> \<not> isl (transform demo_ext (X_train (demo_args\<lparr>y_train := Ndarray (Int64 [0, 0])\<rparr>)) X))"
    by (simp add: demo_args_def demo_ext_def weight_checks_def)
  show ?thesis
    using validation_errors_before_sampling [of "demo_args\<lparr>y_train := Ndarray (Int64 [0, - 1])\<rparr>" demo_ext 0 init_model]
      validation_errors_before_sampling [of "demo_args\<lparr>y_train := Ndarray (Int64 [0, 0])\<rparr>" demo_ext 0 init_model]
      h1 h2 h3
    by blast
qed

subsection \<open>The set-up of the series and the order of the calls\<close>









lemma keep_indices_demo: "keep_indices demo_args = Inr [2, 3]"
  by (simp add: keep_indices_def demo_args_def arange_def upt_rec)

lemma upt_4: "[0..<4] = [0, 1, 2, 3]"
  by (simp add: upt_rec)

text \<open>
  C4.  An accepted call completes after \<open>num_gfr + num_burnin + num_mcmc\<close> iterations and
  calls \<open>sample_one_iteration\<close> exactly once in each, in order; in iteration \<open>i\<close> the eighth
  argument is whether \<open>i\<close> is in \<open>keep_idx\<close> and the ninth is \<open>True\<close> exactly when
  \<open>num_gfr \<le> i\<close>, that is \<open>False\<close> during the first \<open>num_gfr\<close> iterations.
\<close>

theorem forest_sampler_calls:
  assumes "accepted ext a" "keep_indices a = Inr kidx"
  shows "\<exists>m' tr. sample ext entropy a m = Completed m' tr \<and>
     forest_calls tr =
       map (\<lambda>i. SampleOneIteration (int i \<in> set kidx) (num_gfr a \<le> int i) (num_threads a))
         [0..<nat (num_gfr a + num_burnin a + num_mcmc a)]"
proof -
  from sample_forest_calls [OF assms, of entropy m] obtain s m4 where
    "state_after ext entropy a m (nat (num_gfr a + num_burnin a + num_mcmc a)) = Some s"
    "sample ext entropy a m = Completed ((publish (call_locals ext a) s m4)\<lparr>sampled := True\<rparr>) (trace s)"
    "forest_calls (trace s) =
       map (\<lambda>i. SampleOneIteration (int i \<in> set kidx) (int i > num_gfr a - 1) (num_threads a))
         [0..<nat (num_gfr a + num_burnin a + num_mcmc a)]" by blast
  moreover have "(int i > num_gfr a - 1) = (num_gfr a \<le> int i)" for i by linarith
  ultimately show ?thesis by simp
qed

theorem forest_sampler_calls_witness:
  "num_gfr demo_args = 1 \<and>
   (\<exists>m' tr. sample demo_ext 0 demo_args init_model = Completed m' tr \<and>
      forest_calls tr =
        [SampleOneIteration False False 1, SampleOneIteration False True 1,
         SampleOneIteration True True 1, SampleOneIteration True True 1])"
proof -
  have T: "nat (num_gfr demo_args + num_burnin demo_args + num_mcmc demo_args) = 4"
    by (simp add: demo_args_def)
  have g: "num_gfr demo_args = 1" "num_threads demo_args = 1" by (simp_all add: demo_args_def)
  from forest_sampler_calls [OF accepted_demo keep_indices_demo, of 0 init_model, unfolded T]
  show ?thesis by (simp add: g upt_4)
qed

lemma accepted_demo_no_mcmc: "accepted demo_ext (demo_args\<lparr>num_mcmc := 0\<rparr>)"
  by (simp add: accepted_def demo_ext_def demo_args_def data_checks_def weight_checks_def
      outcome_levels_def element_bits_def wrap_def)

lemma keep_indices_no_mcmc:
  "n_thin a \<noteq> 0 \<Longrightarrow> num_mcmc a = 0 \<Longrightarrow> keep_indices a = Inr []"
  by (simp add: keep_indices_def arange_def)

lemma prepare_containers:
  assumes "accepted ext a" "prepare ext entropy a m = Inr (loc, m4, s0)"
  shows "forest_pred_train m4 = Some (replicate (length (keep_idx loc)) None)"
    "gamma_samples m4 = Some (replicate (length (keep_idx loc)) None)"
    "latent_samples m4 = Some (replicate (length (keep_idx loc)) None)"
    "X_test a \<noteq> None \<Longrightarrow> forest_pred_test m4 = Some (replicate (length (keep_idx loc)) None)"
proof -
  from accepted_outcome [OF assms(1)] obtain el where y: "y_train a = Ndarray el"
    and dc: "data_checks a = Inr (ints el)"
    and K: "call_levels a = Max (set (ints el)) + 1" and mx: "1 \<le> Max (set (ints el))"
    and ol: "outcome_levels (element_bits (y_train a)) (ints el) = Inr (Max (set (ints el)) + 1)"
    by blast
  have lv: "levels (element_bits (y_train a)) (ints el) mm
      = Inr (call_levels a, mm\<lparr>n_levels := Some (call_levels a)\<rparr>)" for mm :: "'a model"
    using ol K mx by (simp add: levels_def check_levels_def)
  have wc: "weight_checks a = Inr ()" using assms(1) dc by (simp add: accepted_def)
  have all: "forest_pred_train m4 = Some (replicate (length (keep_idx loc)) None) \<and>
    gamma_samples m4 = Some (replicate (length (keep_idx loc)) None) \<and>
    latent_samples m4 = Some (replicate (length (keep_idx loc)) None) \<and>
    (X_test a \<noteq> None \<longrightarrow> forest_pred_test m4 = Some (replicate (length (keep_idx loc)) None))"
    using assms(2) dc wc
    by (auto simp: prepare_def lv lv [unfolded y] preprocess_and_dims_def make_containers_def
        Let_def split: sum.splits option.splits)
  then show "forest_pred_train m4 = Some (replicate (length (keep_idx loc)) None)"
    "gamma_samples m4 = Some (replicate (length (keep_idx loc)) None)"
    "latent_samples m4 = Some (replicate (length (keep_idx loc)) None)"
    "X_test a \<noteq> None \<Longrightarrow> forest_pred_test m4 = Some (replicate (length (keep_idx loc)) None)"
    by simp_all
qed

lemma publish_test [simp]:
  "test_rows loc \<noteq> None \<Longrightarrow> forest_pred_test (publish loc s m) = Some (test_columns s)"
  by (auto simp: publish_def)

text \<open>
  C1, at an input where it fails.  With \<open>num_mcmc = 0\<close>, two rows of data and the other
  arguments as below, everything before the loop raises nothing, the loop has two
  iterations to run, and the first statement of the body of the loop calls the forest
  sampler.
\<close>

theorem zero_mcmc_counterexample:
  "num_mcmc (demo_args\<lparr>num_mcmc := 0\<rparr>) = 0 \<and>
   [0..<nat (num_gfr (demo_args\<lparr>num_mcmc := 0\<rparr>) + num_burnin (demo_args\<lparr>num_mcmc := 0\<rparr>)
             + num_mcmc (demo_args\<lparr>num_mcmc := 0\<rparr>))] = [0, 1] \<and>
   (\<exists>loc m4 s0. prepare demo_ext 0 (demo_args\<lparr>num_mcmc := 0\<rparr>) init_model = Inr (loc, m4, s0) \<and>
      forest_calls (trace s0) = [] \<and>
      forest_calls (trace (forest_step demo_ext (demo_args\<lparr>num_mcmc := 0\<rparr>) loc 0
                             (count_step loc 0 s0)))
        = [SampleOneIteration False False 1])"
proof -
  have k: "keep_indices (demo_args\<lparr>num_mcmc := 0\<rparr>) = Inr []"
    by (rule keep_indices_no_mcmc) (simp_all add: demo_args_def)
  have ki: "keep_idx (call_locals demo_ext (demo_args\<lparr>num_mcmc := 0\<rparr>)) = []"
    by (rule call_locals_fields(2) [OF k])
  from prepare_accepted [OF accepted_demo_no_mcmc, of 0 init_model] obtain m4 where
    p: "prepare demo_ext 0 (demo_args\<lparr>num_mcmc := 0\<rparr>) init_model
      = Inr (call_locals demo_ext (demo_args\<lparr>num_mcmc := 0\<rparr>), m4,
             initial_sampler demo_ext 0 (demo_args\<lparr>num_mcmc := 0\<rparr>))" by blast
  have f: "forest_calls (trace (forest_step demo_ext (demo_args\<lparr>num_mcmc := 0\<rparr>)
        (call_locals demo_ext (demo_args\<lparr>num_mcmc := 0\<rparr>)) 0
        (count_step (call_locals demo_ext (demo_args\<lparr>num_mcmc := 0\<rparr>)) 0
           (initial_sampler demo_ext 0 (demo_args\<lparr>num_mcmc := 0\<rparr>)))))
      = [SampleOneIteration False False 1]"
    using ki
    by (simp add: forest_step_def call_forest_sampler_def count_step_def logged_def
        initial_sampler_eq new_sampler_def Let_def demo_args_def)
  have t: "forest_calls (trace (initial_sampler demo_ext 0 (demo_args\<lparr>num_mcmc := 0\<rparr>))) = []"
    by (simp add: initial_sampler_eq new_sampler_def)
  have u: "[0..<nat (num_gfr (demo_args\<lparr>num_mcmc := 0\<rparr>) + num_burnin (demo_args\<lparr>num_mcmc := 0\<rparr>)
             + num_mcmc (demo_args\<lparr>num_mcmc := 0\<rparr>))] = [0, 1]"
    by (simp add: demo_args_def upt_rec)
  show ?thesis using p f t u by simp
qed

text \<open>
  C1, as the code has it.  \<open>sample\<close> never tests \<open>num_mcmc\<close>.  On an accepted call (the
  data pass validation, \<open>n_thin\<close> is not 0, the seed is absent or not negative and taken by
  the generator) with \<open>num_mcmc = 0\<close>, everything before the loop raises nothing: \<open>keep_idx\<close>
  is empty and the containers \<open>forest_pred_train\<close>, \<open>gamma_samples\<close>, \<open>latent_samples\<close> and, with
  test covariates, \<open>forest_pred_test\<close> are created without columns.  The loop then runs; with
  compiled components that raise nothing, as they are here, the call completes after
  \<open>num_gfr + num_burnin\<close> iterations, each of which calls the forest sampler once and tells
  it not to keep the forest, the containers still have no column, and the model is marked
  as sampled.
\<close>

theorem zero_mcmc_runs_unretained:
  assumes "accepted ext a" "num_mcmc a = 0"
  shows "\<exists>loc m4 s0 m' tr. prepare ext entropy a m = Inr (loc, m4, s0) \<and> keep_idx loc = [] \<and>
     keep_indices a = Inr [] \<and>
     forest_pred_train m4 = Some [] \<and> gamma_samples m4 = Some [] \<and> latent_samples m4 = Some [] \<and>
     (X_test a \<noteq> None \<longrightarrow> forest_pred_test m4 = Some []) \<and>
     sample ext entropy a m = Completed m' tr \<and> sampled m' \<and>
     forest_calls tr =
       map (\<lambda>i. SampleOneIteration False (num_gfr a \<le> int i) (num_threads a))
         [0..<nat (num_gfr a + num_burnin a)] \<and>
     forest_pred_train m' = Some [] \<and> gamma_samples m' = Some [] \<and> latent_samples m' = Some [] \<and>
     (X_test a \<noteq> None \<longrightarrow> forest_pred_test m' = Some [])"
proof -
  have nt: "n_thin a \<noteq> 0" using assms(1) by (auto simp: accepted_def split: sum.splits)
  have k: "keep_indices a = Inr []" by (rule keep_indices_no_mcmc [OF nt assms(2)])
  let ?T = "nat (num_gfr a + num_burnin a + num_mcmc a)"
  let ?loc = "call_locals ext a"
  have ki: "keep_idx ?loc = []" by (rule call_locals_fields(2) [OF k])
  from prepare_accepted [OF assms(1), of entropy m] obtain m4' where
    p: "prepare ext entropy a m = Inr (?loc, m4', initial_sampler ext entropy a)" by blast
  note pc = prepare_containers [OF assms(1) p]
  from sample_forest_calls [OF assms(1) k, of entropy m] obtain s m4 where
    s: "state_after ext entropy a m ?T = Some s"
    and c: "sample ext entropy a m = Completed ((publish ?loc s m4)\<lparr>sampled := True\<rparr>) (trace s)"
    and inv: "run_inv ?loc (call_levels a) ?T s"
    and f: "forest_calls (trace s) =
       map (\<lambda>i. SampleOneIteration (int i \<in> set []) (int i > num_gfr a - 1) (num_threads a)) [0..<?T]"
    by blast
  have cols: "train_columns s = []" "gamma_columns s = []" "latent_columns s = []"
    "test_columns s = []"
    using inv by (simp_all add: run_inv_def ki)
  have g: "(int i > num_gfr a - 1) = (num_gfr a \<le> int i)" for i by linarith
  have t: "X_test a \<noteq> None \<Longrightarrow> test_rows ?loc \<noteq> None"
    using call_locals_fields(3) [OF assms(1)] by simp
  show ?thesis
    using p c k f cols assms(2) pc ki t by (auto simp: g)
qed

theorem zero_mcmc_witness:
  "\<exists>m' tr. sample demo_ext 0 (demo_args\<lparr>num_mcmc := 0\<rparr>) init_model = Completed m' tr \<and>
     sampled m' \<and>
     forest_calls tr = [SampleOneIteration False False 1, SampleOneIteration False True 1] \<and>
     forest_pred_train m' = Some [] \<and> gamma_samples m' = Some [] \<and> latent_samples m' = Some []"
proof -
  have z: "num_mcmc (demo_args\<lparr>num_mcmc := 0\<rparr>) = 0" by simp
  have u: "[0..<2] = [0, Suc 0]" by (simp add: upt_rec)
  from zero_mcmc_runs_unretained [OF accepted_demo_no_mcmc z, of 0 init_model]
  show ?thesis by (auto simp: demo_args_def u)
qed

lemma before_latent_series:
  assumes "series_shaped n K (forest_dataset_train s)" "n = length (outcome_train loc)"
  shows "get_auxiliary_data_array 1 (forest_dataset_train (before_latent ext a loc i s))
     = predictions ext (active_forest (before_latent ext a loc i s)) Train n"
proof -
  have "length (forest_dataset_train s) = 4" "aux_size (forest_dataset_train s) 1 = n"
    using assms(1) by (simp_all add: series_shaped_def)
  then show ?thesis using assms(2)
    by (simp add: before_latent_eq Let_def get_array_fold_upt predictions_map)
qed

text \<open>
  C3.  Iteration \<open>i\<close> of an accepted call takes the state \<open>s\<close> after \<open>i\<close> iterations to the
  state \<open>s'\<close> and appends to the trace, in this order: the call of the forest sampler, the
  prediction of the updated forest on the training set, the writes of these predictions to
  the elements \<open>0, ..., n_train - 1\<close> of series 1, the latent update, the cutpoint update,
  the cumulative-sum refresh and, in a retained iteration, the reads for the sample
  containers.  The forest of \<open>s'\<close> is the one this iteration's forest update returned, and
  series 1 holds its predictions both when the latent update starts and when the iteration
  ends.  A retained iteration advances the counter of retained draws to a column index of
  the containers and assigns that column of each container: the predictions of the forest
  of \<open>s'\<close> on the training set (and on the test set, when there is one), the cutpoints and
  the latent variables as the store of \<open>s'\<close> holds them, that is as the three updates of
  this iteration left them.  An iteration that is not retained leaves the counter and the
  containers as they were.
\<close>

theorem iteration_order:
  fixes ext :: "('f, 'r) externals"
  assumes "accepted ext a" "data_checks a = Inr vs" "keep_indices a = Inr kidx"
    and "i < nat (num_gfr a + num_burnin a + num_mcmc a)"
  shows "\<exists>s s'. state_after ext entropy a m i = Some s \<and>
     state_after ext entropy a m (Suc i) = Some s' \<and>
     active_forest s' =
       fst (forest_update ext (int i \<in> set kidx) (int i > num_gfr a - 1) (num_threads a) vs
              (active_forest s) (forest_dataset_train s) (cpp_rng s)) \<and>
     trace s' = trace s
       @ [SampleOneIteration (int i \<in> set kidx) (int i > num_gfr a - 1) (num_threads a),
          Predict Train]
       @ map (\<lambda>j. SetAuxiliaryDataValue 1 (int j) (predict_row ext (active_forest s') Train j))
           [0..<length vs]
       @ [UpdateLatentVariables, UpdateGammaParams (alpha_gamma a) (beta_gamma a) 0,
          UpdateCumulativeExpSums]
       @ (if int i \<in> set kidx then
            [Predict Train] @ (if X_test a = None then [] else [Predict Test])
            @ [GetAuxiliaryDataArray 2, GetAuxiliaryDataArray 0]
          else []) \<and>
     get_auxiliary_data_array 1
         (forest_dataset_train (before_latent ext a (call_locals ext a) i s))
       = predictions ext (active_forest s') Train (length vs) \<and>
     get_auxiliary_data_array 1 (forest_dataset_train s')
       = predictions ext (active_forest s') Train (length vs) \<and>
     length (train_columns s) = length kidx \<and> length (test_columns s) = length kidx \<and>
     length (gamma_columns s) = length kidx \<and> length (latent_columns s) = length kidx \<and>
     (if int i \<in> set kidx then
        sample_counter s' = sample_counter s + 1 \<and>
        0 \<le> sample_counter s' \<and> sample_counter s' < int (length kidx) \<and>
        train_columns s' = (train_columns s)[nat (sample_counter s') :=
           Some (predictions ext (active_forest s') Train (length vs))] \<and>
        gamma_columns s' = (gamma_columns s)[nat (sample_counter s') :=
           Some (get_auxiliary_data_array 2 (forest_dataset_train s'))] \<and>
        latent_columns s' = (latent_columns s)[nat (sample_counter s') :=
           Some (get_auxiliary_data_array 0 (forest_dataset_train s'))] \<and>
        (X_test a = None \<longrightarrow> test_columns s' = test_columns s) \<and>
        (\<forall>X te. X_test a = Some X \<and> transform ext (X_train a) X = Inr te \<longrightarrow>
           test_columns s' = (test_columns s)[nat (sample_counter s') :=
             Some (predictions ext (active_forest s') Test (fst te))])
      else sample_counter s' = sample_counter s \<and>
           train_columns s' = train_columns s \<and> test_columns s' = test_columns s \<and>
           gamma_columns s' = gamma_columns s \<and> latent_columns s' = latent_columns s)"
proof -
  let ?loc = "call_locals ext a"
  let ?c = "length (kept_before ?loc i)"
  have n: "outcome_train ?loc = vs" by (rule call_locals_fields(1) [OF assms(2)])
  have k: "keep_idx ?loc = kidx" by (rule call_locals_fields(2) [OF assms(3)])
  have t: "(test_rows ?loc = None) = (X_test a = None)" by (rule call_locals_fields(3) [OF assms(1)])
  from state_after_accepted [OF assms(1), of entropy m i] obtain s where
    s: "state_after ext entropy a m i = Some s" and inv: "run_inv ?loc (call_levels a) i s" by blast
  from state_after_Suc [OF assms(1) s] obtain s' where
    s': "state_after ext entropy a m (Suc i) = Some s'" and it: "iteration ext a ?loc i s = Inr s'"
    by blast
  note cats = categories_in_range [OF assms(1)]
  note tr = iteration_trace [OF inv cats it]
  from iteration_ok [OF inv cats, where ext = ext and a = a] it
  have f: "active_forest s' = active_forest (before_latent ext a ?loc i s)"
    and inv': "run_inv ?loc (call_levels a) (Suc i) s'"
    and cols: "if int i \<in> set (keep_idx ?loc) then
        train_columns s' = (train_columns s)[?c :=
           Some (predictions ext (active_forest s') Train (length (outcome_train ?loc)))] \<and>
        test_columns s' = (case test_rows ?loc of None \<Rightarrow> test_columns s
           | Some nt \<Rightarrow> (test_columns s)[?c := Some (predictions ext (active_forest s') Test nt)]) \<and>
        gamma_columns s' = (gamma_columns s)[?c :=
           Some (get_auxiliary_data_array 2 (forest_dataset_train s'))] \<and>
        latent_columns s' = (latent_columns s)[?c :=
           Some (get_auxiliary_data_array 0 (forest_dataset_train s'))]
      else train_columns s' = train_columns s \<and> test_columns s' = test_columns s \<and>
           gamma_columns s' = gamma_columns s \<and> latent_columns s' = latent_columns s"
    by auto
  have sh: "series_shaped (length vs) (call_levels a) (forest_dataset_train s)"
    using inv n by (simp add: run_inv_def)
  have b: "get_auxiliary_data_array 1 (forest_dataset_train (before_latent ext a ?loc i s))
       = predictions ext (active_forest s') Train (length vs)"
    using before_latent_series [OF sh, of ?loc ext a i] n f by simp
  have r: "retain_events ?loc i =
     (if int i \<in> set kidx then
        [Predict Train] @ (if X_test a = None then [] else [Predict Test])
        @ [GetAuxiliaryDataArray 2, GetAuxiliaryDataArray 0]
      else [])"
    using t by (auto simp: retain_events_def k split: option.splits)
  have lens: "length (train_columns s) = length kidx" "length (test_columns s) = length kidx"
    "length (gamma_columns s) = length kidx" "length (latent_columns s) = length kidx"
    using inv by (simp_all add: run_inv_def k)
  have sc: "sample_counter s = int ?c - 1" using inv by (simp add: run_inv_def)
  have sc': "sample_counter s' = int (length (kept_before ?loc (Suc i))) - 1"
    using inv' by (simp add: run_inv_def)
  have retained: "sample_counter s' = sample_counter s + 1 \<and>
        0 \<le> sample_counter s' \<and> sample_counter s' < int (length kidx) \<and>
        train_columns s' = (train_columns s)[nat (sample_counter s') :=
           Some (predictions ext (active_forest s') Train (length vs))] \<and>
        gamma_columns s' = (gamma_columns s)[nat (sample_counter s') :=
           Some (get_auxiliary_data_array 2 (forest_dataset_train s'))] \<and>
        latent_columns s' = (latent_columns s)[nat (sample_counter s') :=
           Some (get_auxiliary_data_array 0 (forest_dataset_train s'))] \<and>
        (X_test a = None \<longrightarrow> test_columns s' = test_columns s) \<and>
        (\<forall>X te. X_test a = Some X \<and> transform ext (X_train a) X = Inr te \<longrightarrow>
           test_columns s' = (test_columns s)[nat (sample_counter s') :=
             Some (predictions ext (active_forest s') Test (fst te))])"
    if kp: "int i \<in> set kidx"
  proof -
    have kp': "int i \<in> set (keep_idx ?loc)" using kp k by simp
    have c': "sample_counter s' = int ?c" using sc' kp' by (simp add: kept_before_Suc)
    have cb: "?c < length kidx"
      using kept_before_bound [OF kp'] by (simp add: kept_before_def k)
    have te: "test_columns s' = (test_columns s)[?c := Some (predictions ext (active_forest s') Test (fst te))]"
      if "X_test a = Some X" "transform ext (X_train a) X = Inr te" for X te
    proof -
      have "test_rows ?loc = Some (fst te)" using that by (simp add: call_locals_def)
      then show ?thesis using cols kp' by simp
    qed
    have tn: "test_columns s' = test_columns s" if "X_test a = None"
    proof -
      have "test_rows ?loc = None" using that t by simp
      then show ?thesis using cols kp' by simp
    qed
    show ?thesis using c' sc cb cols kp' n te tn by simp
  qed
  have skipped: "sample_counter s' = sample_counter s \<and>
           train_columns s' = train_columns s \<and> test_columns s' = test_columns s \<and>
           gamma_columns s' = gamma_columns s \<and> latent_columns s' = latent_columns s"
    if kp: "int i \<notin> set kidx"
  proof -
    have kp': "int i \<notin> set (keep_idx ?loc)" using kp k by simp
    then show ?thesis using sc sc' cols by (simp add: kept_before_Suc)
  qed
  have last: "if int i \<in> set kidx then
        sample_counter s' = sample_counter s + 1 \<and>
        0 \<le> sample_counter s' \<and> sample_counter s' < int (length kidx) \<and>
        train_columns s' = (train_columns s)[nat (sample_counter s') :=
           Some (predictions ext (active_forest s') Train (length vs))] \<and>
        gamma_columns s' = (gamma_columns s)[nat (sample_counter s') :=
           Some (get_auxiliary_data_array 2 (forest_dataset_train s'))] \<and>
        latent_columns s' = (latent_columns s)[nat (sample_counter s') :=
           Some (get_auxiliary_data_array 0 (forest_dataset_train s'))] \<and>
        (X_test a = None \<longrightarrow> test_columns s' = test_columns s) \<and>
        (\<forall>X te. X_test a = Some X \<and> transform ext (X_train a) X = Inr te \<longrightarrow>
           test_columns s' = (test_columns s)[nat (sample_counter s') :=
             Some (predictions ext (active_forest s') Test (fst te))])
      else sample_counter s' = sample_counter s \<and>
           train_columns s' = train_columns s \<and> test_columns s' = test_columns s \<and>
           gamma_columns s' = gamma_columns s \<and> latent_columns s' = latent_columns s"
  proof (cases "int i \<in> set kidx")
    case True
    from retained [OF True] show ?thesis unfolding if_P [OF True] .
  next
    case False
    from skipped [OF False] show ?thesis unfolding if_not_P [OF False] .
  qed
  have first: "active_forest s' =
       fst (forest_update ext (int i \<in> set kidx) (int i > num_gfr a - 1) (num_threads a) vs
              (active_forest s) (forest_dataset_train s) (cpp_rng s)) \<and>
     trace s' = trace s
       @ [SampleOneIteration (int i \<in> set kidx) (int i > num_gfr a - 1) (num_threads a),
          Predict Train]
       @ map (\<lambda>j. SetAuxiliaryDataValue 1 (int j) (predict_row ext (active_forest s') Train j))
           [0..<length vs]
       @ [UpdateLatentVariables, UpdateGammaParams (alpha_gamma a) (beta_gamma a) 0,
          UpdateCumulativeExpSums]
       @ (if int i \<in> set kidx then
            [Predict Train] @ (if X_test a = None then [] else [Predict Test])
            @ [GetAuxiliaryDataArray 2, GetAuxiliaryDataArray 0]
          else []) \<and>
     get_auxiliary_data_array 1 (forest_dataset_train s')
       = predictions ext (active_forest s') Train (length vs)"
    using tr by (simp add: n k r)
  show ?thesis
    using s s' first b lens last by blast
qed

theorem iteration_order_witness:
  "\<exists>s s'. state_after demo_ext 0 demo_args init_model 2 = Some s \<and>
     state_after demo_ext 0 demo_args init_model 3 = Some s' \<and>
     active_forest s' = Suc (active_forest s) \<and>
     trace s' = trace s
       @ [SampleOneIteration True True 1, Predict Train,
          SetAuxiliaryDataValue 1 0 (real (active_forest s')),
          SetAuxiliaryDataValue 1 1 (real (active_forest s')),
          UpdateLatentVariables, UpdateGammaParams 2 2 0, UpdateCumulativeExpSums,
          Predict Train, GetAuxiliaryDataArray 2, GetAuxiliaryDataArray 0] \<and>
     get_auxiliary_data_array 1 (forest_dataset_train s')
       = [real (active_forest s'), real (active_forest s')] \<and>
     length (train_columns s) = 2 \<and> sample_counter s' = sample_counter s + 1 \<and>
     train_columns s' = (train_columns s)[nat (sample_counter s') :=
        Some [real (active_forest s'), real (active_forest s')]] \<and>
     latent_columns s' = (latent_columns s)[nat (sample_counter s') :=
        Some (get_auxiliary_data_array 0 (forest_dataset_train s'))]"
proof -
  have y: "data_checks demo_args = Inr [0, 1]" by (simp add: demo_args_def data_checks_def)
  have i: "2 < nat (num_gfr demo_args + num_burnin demo_args + num_mcmc demo_args)"
    by (simp add: demo_args_def)
  have u: "[0..<2] = [0, Suc 0]" by (simp add: upt_rec)
  have e: "Suc 2 = 3" by simp
  have kp: "int 2 \<in> set [2, 3]" by simp
  from iteration_order [OF accepted_demo y keep_indices_demo i, of 0 init_model]
  obtain s s' where h: "state_after demo_ext 0 demo_args init_model 2 = Some s"
    "state_after demo_ext 0 demo_args init_model (Suc 2) = Some s'"
    "active_forest s' =
       fst (forest_update demo_ext (int 2 \<in> set [2, 3]) (int 2 > num_gfr demo_args - 1)
              (num_threads demo_args) [0, 1] (active_forest s) (forest_dataset_train s) (cpp_rng s))"
    "trace s' = trace s
       @ [SampleOneIteration (int 2 \<in> set [2, 3]) (int 2 > num_gfr demo_args - 1) (num_threads demo_args),
          Predict Train]
       @ map (\<lambda>j. SetAuxiliaryDataValue 1 (int j) (predict_row demo_ext (active_forest s') Train j))
           [0..<length [0::int, 1]]
       @ [UpdateLatentVariables, UpdateGammaParams (alpha_gamma demo_args) (beta_gamma demo_args) 0,
          UpdateCumulativeExpSums]
       @ (if int 2 \<in> set [2, 3] then
            [Predict Train] @ (if X_test demo_args = None then [] else [Predict Test])
            @ [GetAuxiliaryDataArray 2, GetAuxiliaryDataArray 0]
          else [])"
    "get_auxiliary_data_array 1 (forest_dataset_train s')
       = predictions demo_ext (active_forest s') Train (length [0::int, 1])"
    "length (train_columns s) = length [2::int, 3]"
    "if int 2 \<in> set [2, 3] then
        sample_counter s' = sample_counter s + 1 \<and>
        0 \<le> sample_counter s' \<and> sample_counter s' < int (length [2::int, 3]) \<and>
        train_columns s' = (train_columns s)[nat (sample_counter s') :=
           Some (predictions demo_ext (active_forest s') Train (length [0::int, 1]))] \<and>
        gamma_columns s' = (gamma_columns s)[nat (sample_counter s') :=
           Some (get_auxiliary_data_array 2 (forest_dataset_train s'))] \<and>
        latent_columns s' = (latent_columns s)[nat (sample_counter s') :=
           Some (get_auxiliary_data_array 0 (forest_dataset_train s'))] \<and>
        (X_test demo_args = None \<longrightarrow> test_columns s' = test_columns s) \<and>
        (\<forall>X te. X_test demo_args = Some X \<and> transform demo_ext (X_train demo_args) X = Inr te \<longrightarrow>
           test_columns s' = (test_columns s)[nat (sample_counter s') :=
             Some (predictions demo_ext (active_forest s') Test (fst te))])
      else sample_counter s' = sample_counter s \<and>
           train_columns s' = train_columns s \<and> test_columns s' = test_columns s \<and>
           gamma_columns s' = gamma_columns s \<and> latent_columns s' = latent_columns s"
    by blast
  have "state_after demo_ext 0 demo_args init_model 3 = Some s'" using h(2) by (simp add: e)
  moreover have "active_forest s' = Suc (active_forest s)" using h(3) by (simp add: demo_ext_def)
  moreover have "trace s' = trace s
       @ [SampleOneIteration True True 1, Predict Train,
          SetAuxiliaryDataValue 1 0 (real (active_forest s')),
          SetAuxiliaryDataValue 1 1 (real (active_forest s')),
          UpdateLatentVariables, UpdateGammaParams 2 2 0, UpdateCumulativeExpSums,
          Predict Train, GetAuxiliaryDataArray 2, GetAuxiliaryDataArray 0]"
    using h(4) by (simp add: demo_ext_def demo_args_def u)
  moreover have "get_auxiliary_data_array 1 (forest_dataset_train s')
       = [real (active_forest s'), real (active_forest s')]"
    using h(5) by (simp add: predictions_def demo_ext_def u)
  moreover have "length (train_columns s) = 2" using h(6) by simp
  moreover have "sample_counter s' = sample_counter s + 1 \<and>
     train_columns s' = (train_columns s)[nat (sample_counter s') :=
        Some [real (active_forest s'), real (active_forest s')]] \<and>
     latent_columns s' = (latent_columns s)[nat (sample_counter s') :=
        Some (get_auxiliary_data_array 0 (forest_dataset_train s'))]"
    using h(7) kp by (simp add: predictions_def demo_ext_def u)
  ultimately show ?thesis using h(1) by blast
qed

lemma arange_count:
  assumes "0 < s"
  shows "(j < nat (- ((a - b) div s))) = (a + int j * s < b)"
proof -
  have "(a - b + int j * s) div s = (a - b) div s + int j" using assms by simp
  moreover have "((a - b + int j * s) div s < 0) = (a - b + int j * s < 0)"
    using assms by (rule pos_imp_zdiv_neg_iff)
  ultimately show ?thesis by linarith
qed

lemma arange_positive_step:
  assumes "0 < s" "arange a b s = Inr xs"
  shows "xs = map (\<lambda>j. a + int j * s) [0..<length xs]"
    and "set xs = {i. a \<le> i \<and> i < b \<and> (i - a) mod s = 0}"
    and "sorted_wrt (<) xs"
proof -
  let ?n = "nat (- ((a - b) div s))"
  have xs: "xs = map (\<lambda>j. a + int j * s) [0..<?n]" using assms by (simp add: arange_def)
  then have len: "length xs = ?n" by simp
  show "xs = map (\<lambda>j. a + int j * s) [0..<length xs]" using xs len by simp
  show "set xs = {i. a \<le> i \<and> i < b \<and> (i - a) mod s = 0}"
  proof (intro set_eqI iffI)
    fix i assume "i \<in> set xs"
    then obtain j where j: "j < ?n" "i = a + int j * s" using xs by auto
    then have "a + int j * s < b" using arange_count [OF assms(1)] by blast
    moreover have "0 \<le> int j * s" using assms(1) by simp
    ultimately show "i \<in> {i. a \<le> i \<and> i < b \<and> (i - a) mod s = 0}" using j by simp
  next
    fix i assume "i \<in> {i. a \<le> i \<and> i < b \<and> (i - a) mod s = 0}"
    then have i: "a \<le> i" "i < b" "(i - a) mod s = 0" by simp_all
    define j where "j = nat ((i - a) div s)"
    have "0 \<le> (i - a) div s" using i(1) assms(1) by (simp add: pos_imp_zdiv_nonneg_iff)
    then have "int j = (i - a) div s" by (simp add: j_def)
    moreover have "(i - a) div s * s = i - a" using i(3) by (simp add: mod_0_imp_dvd)
    ultimately have e: "i = a + int j * s" by simp
    then have "j < ?n" using arange_count [OF assms(1), of j a b] i(2) by simp
    then show "i \<in> set xs" using xs e by auto
  qed
  show "sorted_wrt (<) xs"
    unfolding xs sorted_wrt_map
    by (rule sorted_wrt_mono_rel [OF _ sorted_wrt_upt]) (use assms(1) in simp)
qed

lemma arange_negative_step:
  assumes "s < 0" "a \<le> b"
  shows "arange a b s = Inr []"
proof -
  have "0 \<le> (a - b) div s" using assms by (simp add: neg_imp_zdiv_nonneg_iff)
  then show ?thesis using assms(1) by (simp add: arange_def)
qed

lemma kept_all:
  assumes "sorted_wrt (<) kidx" "\<forall>e\<in>set kidx. 0 \<le> e \<and> e < int T"
  shows "filter (\<lambda>i. int i \<in> set kidx) [0..<T] = map nat kidx"
proof (rule sorted_distinct_set_unique)
  show "sorted (filter (\<lambda>i. int i \<in> set kidx) [0..<T])" by (simp add: sorted_wrt_filter)
  show "distinct (filter (\<lambda>i. int i \<in> set kidx) [0..<T])" by simp
  have st: "sorted_wrt (<) (map nat kidx)"
    unfolding sorted_wrt_map
    by (rule sorted_wrt_mono_rel [OF _ assms(1)]) (use assms(2) in auto)
  then show "sorted (map nat kidx)" "distinct (map nat kidx)"
    by (simp_all add: strict_sorted_iff)
  show "set (filter (\<lambda>i. int i \<in> set kidx) [0..<T]) = set (map nat kidx)"
  proof (intro set_eqI iffI)
    fix i assume "i \<in> set (filter (\<lambda>i. int i \<in> set kidx) [0..<T])"
    then have "int i \<in> set kidx" by simp
    then have "nat (int i) \<in> nat ` set kidx" by (rule imageI)
    then show "i \<in> set (map nat kidx)" by simp
  next
    fix i assume "i \<in> set (map nat kidx)"
    then obtain e where e: "e \<in> set kidx" "i = nat e" by auto
    then have "0 \<le> e" "e < int T" using assms(2) by auto
    then show "i \<in> set (filter (\<lambda>i. int i \<in> set kidx) [0..<T])" using e by simp
  qed
qed

lemma kept_before_le: "length (kept_before loc k) \<le> length (keep_idx loc)"
proof -
  let ?A = "{j. j < k \<and> int j \<in> set (keep_idx loc)}"
  have "length (kept_before loc k) = card ?A"
    unfolding kept_before_def
    by (subst distinct_length_filter) (auto intro: arg_cong [where f = card])
  moreover have "card ?A = card (int ` ?A)" by (simp add: card_image)
  moreover have "card (int ` ?A) \<le> card (set (keep_idx loc))" by (rule card_mono) auto
  moreover have "card (set (keep_idx loc)) \<le> length (keep_idx loc)" by (rule card_length)
  ultimately show ?thesis by linarith
qed

lemma iteration_draws:
  fixes ext :: "('f, 'r) externals"
  assumes inv: "run_inv loc K i s"
    and cats: "\<forall>y\<in>set (outcome_train loc). 0 \<le> y \<and> y < K"
    and it: "iteration ext a loc i s = Inr s'"
    and j: "j < length (keep_idx loc)"
    and empty: "test_columns s ! length (kept_before loc i) = None"
  shows "draw_at s' j =
     (if int i \<in> set (keep_idx loc) \<and> j = length (kept_before loc i) then draw_of ext loc s'
      else draw_at s j)"
proof -
  from iteration_ok [OF inv cats, where ext = ext and a = a] it
  have c: "if int i \<in> set (keep_idx loc) then
        train_columns s' = (train_columns s)[length (kept_before loc i) :=
           Some (predictions ext (active_forest s') Train (length (outcome_train loc)))] \<and>
        test_columns s' = (case test_rows loc of None \<Rightarrow> test_columns s
           | Some nt \<Rightarrow> (test_columns s)[length (kept_before loc i) :=
               Some (predictions ext (active_forest s') Test nt)]) \<and>
        gamma_columns s' = (gamma_columns s)[length (kept_before loc i) :=
           Some (get_auxiliary_data_array 2 (forest_dataset_train s'))] \<and>
        latent_columns s' = (latent_columns s)[length (kept_before loc i) :=
           Some (get_auxiliary_data_array 0 (forest_dataset_train s'))]
      else train_columns s' = train_columns s \<and> test_columns s' = test_columns s \<and>
           gamma_columns s' = gamma_columns s \<and> latent_columns s' = latent_columns s"
    by auto
  have lens: "length (train_columns s) = length (keep_idx loc)" "length (test_columns s) = length (keep_idx loc)"
    "length (gamma_columns s) = length (keep_idx loc)" "length (latent_columns s) = length (keep_idx loc)"
    using inv by (simp_all add: run_inv_def)
  show ?thesis
  proof (cases "int i \<in> set (keep_idx loc)")
    case False
    then show ?thesis using c by (simp add: draw_at_def)
  next
    case True
    show ?thesis
    proof (cases "j = length (kept_before loc i)")
      case False
      then show ?thesis using c True by (simp add: draw_at_def split: option.splits)
    next
      case eq: True
      then show ?thesis using c True j lens empty
        by (simp add: draw_at_def draw_of_def split: option.splits)
    qed
  qed
qed

lemma run_draws:
  fixes ext :: "('f, 'r) externals"
  assumes inv0: "run_inv loc K 0 s0"
    and cats: "\<forall>y\<in>set (outcome_train loc). 0 \<le> y \<and> y < K"
    and empties: "\<forall>j<length (keep_idx loc). draw_at s0 j = (None, None, None, None)"
  shows "\<exists>s. run_iterations ext a loc [0..<k] s0 = Inr s \<and> run_inv loc K k s \<and>
     (\<forall>j<length (kept_before loc k).
        \<exists>sj. run_iterations ext a loc [0..<Suc (kept_before loc k ! j)] s0 = Inr sj \<and>
             draw_at s j = draw_of ext loc sj) \<and>
     (\<forall>j. length (kept_before loc k) \<le> j \<and> j < length (keep_idx loc)
        \<longrightarrow> draw_at s j = (None, None, None, None))"
proof (induction k)
  case 0
  then show ?case using inv0 empties by (simp add: kept_before_def)
next
  case (Suc k)
  then obtain s where run: "run_iterations ext a loc [0..<k] s0 = Inr s" and inv: "run_inv loc K k s"
    and kept: "\<forall>j<length (kept_before loc k).
        \<exists>sj. run_iterations ext a loc [0..<Suc (kept_before loc k ! j)] s0 = Inr sj \<and>
             draw_at s j = draw_of ext loc sj"
    and rest: "\<forall>j. length (kept_before loc k) \<le> j \<and> j < length (keep_idx loc)
        \<longrightarrow> draw_at s j = (None, None, None, None)"
    by blast
  from iteration_ok [OF inv cats, where ext = ext and a = a]
  obtain s' where it: "iteration ext a loc k s = Inr s'" and inv': "run_inv loc K (Suc k) s'" by blast
  have run': "run_iterations ext a loc [0..<Suc k] s0 = Inr s'"
    using run it by (simp add: run_iterations_Suc del: upt_Suc)
  let ?c = "length (kept_before loc k)"
  have d: "draw_at s' j =
     (if int k \<in> set (keep_idx loc) \<and> j = ?c then draw_of ext loc s' else draw_at s j)"
    if j: "j < length (keep_idx loc)" for j
  proof (cases "int k \<in> set (keep_idx loc)")
    case True
    have "?c < length (keep_idx loc)"
      unfolding kept_before_def by (rule kept_before_bound [OF True])
    then have "draw_at s ?c = (None, None, None, None)" using rest by simp
    then have "test_columns s ! ?c = None" by (simp add: draw_at_def)
    from iteration_draws [OF inv cats it j this] show ?thesis .
  next
    case False
    from iteration_ok [OF inv cats, where ext = ext and a = a] it False
    have "train_columns s' = train_columns s \<and> test_columns s' = test_columns s \<and>
           gamma_columns s' = gamma_columns s \<and> latent_columns s' = latent_columns s" by auto
    then show ?thesis using False by (simp add: draw_at_def)
  qed
  have le: "length (kept_before loc (Suc k)) \<le> length (keep_idx loc)" by (rule kept_before_le)
  show ?case
  proof (cases "int k \<in> set (keep_idx loc)")
    case False
    then have kb: "kept_before loc (Suc k) = kept_before loc k" by (simp add: kept_before_Suc)
    have "\<forall>j<length (kept_before loc (Suc k)).
        \<exists>sj. run_iterations ext a loc [0..<Suc (kept_before loc (Suc k) ! j)] s0 = Inr sj \<and>
             draw_at s' j = draw_of ext loc sj"
    proof (intro allI impI)
      fix j assume j: "j < length (kept_before loc (Suc k))"
      then have "j < length (keep_idx loc)" using le by linarith
      then have "draw_at s' j = draw_at s j" using d False by simp
      then show "\<exists>sj. run_iterations ext a loc [0..<Suc (kept_before loc (Suc k) ! j)] s0 = Inr sj \<and>
             draw_at s' j = draw_of ext loc sj"
        using kept j kb by simp
    qed
    moreover have "\<forall>j. length (kept_before loc (Suc k)) \<le> j \<and> j < length (keep_idx loc)
        \<longrightarrow> draw_at s' j = (None, None, None, None)"
      using rest d False kb by simp
    ultimately show ?thesis using run' inv' by blast
  next
    case True
    then have kb: "kept_before loc (Suc k) = kept_before loc k @ [k]" by (simp add: kept_before_Suc)
    have "\<forall>j<length (kept_before loc (Suc k)).
        \<exists>sj. run_iterations ext a loc [0..<Suc (kept_before loc (Suc k) ! j)] s0 = Inr sj \<and>
             draw_at s' j = draw_of ext loc sj"
    proof (intro allI impI)
      fix j assume j: "j < length (kept_before loc (Suc k))"
      then have jn: "j < length (keep_idx loc)" using le by linarith
      show "\<exists>sj. run_iterations ext a loc [0..<Suc (kept_before loc (Suc k) ! j)] s0 = Inr sj \<and>
             draw_at s' j = draw_of ext loc sj"
      proof (cases "j = ?c")
        case True
        then have "kept_before loc (Suc k) ! j = k" by (simp add: kb)
        moreover have "draw_at s' j = draw_of ext loc s'" using d [OF jn] True \<open>int k \<in> set (keep_idx loc)\<close> by simp
        ultimately show ?thesis using run' by simp
      next
        case False
        then have jc: "j < ?c" using j kb by simp
        then have "kept_before loc (Suc k) ! j = kept_before loc k ! j" by (simp add: kb nth_append)
        moreover have "draw_at s' j = draw_at s j" using d [OF jn] False by simp
        ultimately show ?thesis using kept jc by simp
      qed
    qed
    moreover have "\<forall>j. length (kept_before loc (Suc k)) \<le> j \<and> j < length (keep_idx loc)
        \<longrightarrow> draw_at s' j = (None, None, None, None)"
      using rest d kb by simp
    ultimately show ?thesis using run' inv' by blast
  qed
qed

lemma state_after_run:
  "prepare ext entropy a m = Inr (loc, m4, s0) \<Longrightarrow> run_iterations ext a loc [0..<k] s0 = Inr s
     \<Longrightarrow> state_after ext entropy a m k = Some s"
  by (simp add: state_after_def)

lemma initial_draws_empty:
  "j < length (keep_idx (call_locals ext a)) \<Longrightarrow>
     draw_at (initial_sampler ext entropy a) j = (None, None, None, None)"
  by (simp add: draw_at_def initial_sampler_eq new_sampler_def)

lemma sample_draws:
  fixes ext :: "('f, 'r) externals"
  assumes "accepted ext a"
  shows "\<exists>s m4. state_after ext entropy a m (nat (num_gfr a + num_burnin a + num_mcmc a)) = Some s \<and>
     sample ext entropy a m = Completed ((publish (call_locals ext a) s m4)\<lparr>sampled := True\<rparr>) (trace s) \<and>
     run_inv (call_locals ext a) (call_levels a) (nat (num_gfr a + num_burnin a + num_mcmc a)) s \<and>
     (\<forall>j<length (kept_before (call_locals ext a) (nat (num_gfr a + num_burnin a + num_mcmc a))).
        \<exists>sj. state_after ext entropy a m
               (Suc (kept_before (call_locals ext a) (nat (num_gfr a + num_burnin a + num_mcmc a)) ! j))
               = Some sj \<and>
             draw_at s j = draw_of ext (call_locals ext a) sj) \<and>
     (\<forall>j. length (kept_before (call_locals ext a) (nat (num_gfr a + num_burnin a + num_mcmc a))) \<le> j
          \<and> j < length (keep_idx (call_locals ext a))
        \<longrightarrow> draw_at s j = (None, None, None, None))"
proof -
  let ?T = "nat (num_gfr a + num_burnin a + num_mcmc a)"
  let ?loc = "call_locals ext a"
  let ?s0 = "initial_sampler ext entropy a"
  from sample_accepted [OF assms, of entropy m] obtain sT m4 where
    sT: "state_after ext entropy a m ?T = Some sT"
    and p: "prepare ext entropy a m = Inr (?loc, m4, ?s0)"
    and c: "sample ext entropy a m = Completed ((publish ?loc sT m4)\<lparr>sampled := True\<rparr>) (trace sT)"
    by blast
  have ri: "run_inv ?loc (call_levels a) 0 ?s0" by (rule run_inv_initial)
  have em: "\<forall>j<length (keep_idx ?loc). draw_at ?s0 j = (None, None, None, None)"
    by (simp add: initial_draws_empty)
  from run_draws [OF ri categories_in_range [OF assms] em, where ext = ext and a = a and k = ?T]
  obtain s where r: "run_iterations ext a ?loc [0..<?T] ?s0 = Inr s"
    and inv: "run_inv ?loc (call_levels a) ?T s"
    and kept: "\<forall>j<length (kept_before ?loc ?T).
        \<exists>sj. run_iterations ext a ?loc [0..<Suc (kept_before ?loc ?T ! j)] ?s0 = Inr sj \<and>
             draw_at s j = draw_of ext ?loc sj"
    and rest: "\<forall>j. length (kept_before ?loc ?T) \<le> j \<and> j < length (keep_idx ?loc)
        \<longrightarrow> draw_at s j = (None, None, None, None)"
    by blast
  have "state_after ext entropy a m ?T = Some s" by (rule state_after_run [OF p r])
  then have e: "s = sT" using sT by simp
  have "\<forall>j<length (kept_before ?loc ?T).
        \<exists>sj. state_after ext entropy a m (Suc (kept_before ?loc ?T ! j)) = Some sj \<and>
             draw_at s j = draw_of ext ?loc sj"
    using kept state_after_run [OF p] by blast
  then show ?thesis using sT c inv rest e by blast
qed

lemma state_positive:
  fixes ext :: "('f, 'r) externals"
  assumes "accepted ext a" "\<forall>r. 0 < fst (uniform ext r) \<and> fst (uniform ext r) < 1"
    and "state_after ext entropy a m (Suc k) = Some s'"
  shows "list_all (\<lambda>z. 0 < z) (get_auxiliary_data_array 0 (forest_dataset_train s'))"
proof -
  from state_after_accepted [OF assms(1), of entropy m k] obtain s where
    s: "state_after ext entropy a m k = Some s"
    and inv: "run_inv (call_locals ext a) (call_levels a) k s" by blast
  from state_after_Suc [OF assms(1) s] assms(3)
  have it: "iteration ext a (call_locals ext a) k s = Inr s'" by auto
  from iteration_ok [OF inv categories_in_range [OF assms(1)], where ext = ext and a = a] it assms(2)
  show ?thesis by auto
qed

lemma keep_indices_props:
  assumes "n_thin a \<noteq> 0" "0 \<le> num_gfr a" "0 \<le> num_burnin a" "0 \<le> num_mcmc a"
  shows "\<exists>kidx. keep_indices a = Inr kidx \<and>
     kidx = map (\<lambda>j. num_gfr a + num_burnin a + int j * n_thin a) [0..<length kidx] \<and>
     (0 < n_thin a \<longrightarrow> set kidx = {i. num_gfr a + num_burnin a \<le> i \<and>
          i < num_gfr a + num_burnin a + num_mcmc a \<and> (i - (num_gfr a + num_burnin a)) mod n_thin a = 0}) \<and>
     (n_thin a < 0 \<longrightarrow> kidx = []) \<and>
     sorted_wrt (<) kidx \<and>
     (\<forall>e\<in>set kidx. 0 \<le> e \<and> e < int (nat (num_gfr a + num_burnin a + num_mcmc a)))"
proof (cases "0 < n_thin a")
  case True
  obtain kidx where k: "arange (num_gfr a + num_burnin a) (num_gfr a + num_burnin a + num_mcmc a) (n_thin a) = Inr kidx"
    using assms(1) by (simp add: arange_def)
  note p = arange_positive_step [OF True k]
  have "\<forall>e\<in>set kidx. 0 \<le> e \<and> e < int (nat (num_gfr a + num_burnin a + num_mcmc a))"
    using p(2) assms(2-4) by auto
  then show ?thesis using k p True by (auto simp: keep_indices_def)
next
  case False
  then have neg: "n_thin a < 0" using assms(1) by simp
  have "keep_indices a = Inr []"
    unfolding keep_indices_def by (rule arange_negative_step [OF neg]) (use assms(4) in simp)
  then show ?thesis using neg by simp
qed

lemma kept_before_all:
  assumes "accepted ext a" "0 \<le> num_gfr a" "0 \<le> num_burnin a" "0 \<le> num_mcmc a"
    and "keep_indices a = Inr kidx"
  shows "kept_before (call_locals ext a) (nat (num_gfr a + num_burnin a + num_mcmc a)) = map nat kidx"
proof -
  have nt: "n_thin a \<noteq> 0" using assms(1) by (auto simp: accepted_def split: sum.splits)
  from keep_indices_props [OF nt assms(2-4)] assms(5)
  have "sorted_wrt (<) kidx"
    "\<forall>e\<in>set kidx. 0 \<le> e \<and> e < int (nat (num_gfr a + num_burnin a + num_mcmc a))" by auto
  from kept_all [OF this] show ?thesis
    by (simp add: kept_before_def call_locals_fields(2) [OF assms(5)])
qed

lemma accepted_negative: "accepted demo_ext negative_args"
  by (simp add: accepted_def demo_ext_def negative_args_def demo_args_def data_checks_def
      weight_checks_def outcome_levels_def element_bits_def wrap_def)

lemma keep_indices_negative: "keep_indices negative_args = Inr [- 2, - 1, 0, 1]"
  by (simp add: keep_indices_def negative_args_def demo_args_def arange_def upt_rec)

text \<open>
  C5, at an input where it fails.  \<open>sample\<close> does not test the signs of the iteration
  counts.  With \<open>num_gfr = 0\<close>, \<open>num_burnin = -2\<close> and \<open>num_mcmc = 4\<close> the retained indices
  are \<open>-2, -1, 0, 1\<close>, so the containers have four columns, but the loop runs over
  \<open>range(2)\<close>: the call completes with two retained draws, in the columns 0 and 1, and the
  columns 2 and 3 were never assigned.
\<close>

theorem negative_count_counterexample:
  "num_gfr negative_args = 0 \<and> num_burnin negative_args = - 2 \<and> num_mcmc negative_args = 4 \<and>
   n_thin negative_args = 1 \<and>
   keep_indices negative_args = Inr [- 2, - 1, 0, 1] \<and>
   (\<exists>m' tr sT cols.
      sample demo_ext 0 negative_args init_model = Completed m' tr \<and>
      state_after demo_ext 0 negative_args init_model 2 = Some sT \<and>
      sample_counter sT + 1 = 2 \<and>
      forest_pred_train m' = Some cols \<and> length cols = 4 \<and>
      cols ! 0 \<noteq> None \<and> cols ! 1 \<noteq> None \<and> cols ! 2 = None \<and> cols ! 3 = None)"
proof -
  let ?a = "negative_args"
  let ?loc = "call_locals demo_ext ?a"
  have T: "nat (num_gfr ?a + num_burnin ?a + num_mcmc ?a) = 2"
    by (simp add: negative_args_def demo_args_def)
  have ki: "keep_idx ?loc = [- 2, - 1, 0, 1]"
    by (rule call_locals_fields(2) [OF keep_indices_negative])
  have kb: "kept_before ?loc 2 = [0, 1]"
    by (simp add: kept_before_def ki upt_rec numeral_2_eq_2)
  from sample_draws [OF accepted_negative, of 0 init_model, unfolded T] obtain s m4 where
    sT: "state_after demo_ext 0 ?a init_model 2 = Some s"
    and c: "sample demo_ext 0 ?a init_model = Completed ((publish ?loc s m4)\<lparr>sampled := True\<rparr>) (trace s)"
    and inv: "run_inv ?loc (call_levels ?a) 2 s"
    and kept: "\<forall>j<length (kept_before ?loc 2).
        \<exists>sj. state_after demo_ext 0 ?a init_model (Suc (kept_before ?loc 2 ! j)) = Some sj \<and>
             draw_at s j = draw_of demo_ext ?loc sj"
    and rest: "\<forall>j. length (kept_before ?loc 2) \<le> j \<and> j < length (keep_idx ?loc)
        \<longrightarrow> draw_at s j = (None, None, None, None)"
    by blast
  have len: "length (train_columns s) = 4" and cnt: "sample_counter s + 1 = 2"
    using inv by (simp_all add: run_inv_def ki kb)
  have "draw_at s 2 = (None, None, None, None)" "draw_at s 3 = (None, None, None, None)"
    using rest by (simp_all add: kb ki)
  then have none: "train_columns s ! 2 = None" "train_columns s ! 3 = None"
    by (simp_all add: draw_at_def)
  have "\<exists>sj. draw_at s 0 = draw_of demo_ext ?loc sj" "\<exists>sj. draw_at s 1 = draw_of demo_ext ?loc sj"
    using kept by (auto simp: kb)
  then have some: "train_columns s ! 0 \<noteq> None" "train_columns s ! 1 \<noteq> None"
    by (auto simp: draw_at_def draw_of_def)
  have cfg: "num_gfr ?a = 0 \<and> num_burnin ?a = - 2 \<and> num_mcmc ?a = 4 \<and> n_thin ?a = 1"
    by (simp add: negative_args_def demo_args_def)
  show ?thesis
    using keep_indices_negative c sT len cnt none some cfg by simp
qed

text \<open>
  C5, as the code has it.  On an accepted call whose three iteration counts are not
  negative, \<open>keep_idx\<close> is the arithmetic progression that starts at \<open>num_gfr + num_burnin\<close> and
  advances by \<open>n_thin\<close>: for a positive step it holds exactly the indices \<open>i\<close> with
  \<open>num_gfr + num_burnin \<le> i < num_gfr + num_burnin + num_mcmc\<close> at a multiple of \<open>n_thin\<close> from
  the start, in increasing order, and for a negative step it is empty.  With compiled
  components that raise nothing, as they are here, the call completes; the retained-sample
  counter ends at \<open>len(keep_idx) - 1\<close>, so the number of retained samples is \<open>len(keep_idx)\<close>;
  each container has \<open>len(keep_idx)\<close> columns; and column \<open>j\<close> of \<open>forest_pred_train\<close>,
  \<open>gamma_samples\<close>, \<open>latent_samples\<close> (and of \<open>forest_pred_test\<close> when test covariates are given)
  holds the forest predictions, the cutpoints and the latent variables of the state reached
  at the end of iteration \<open>keep_idx[j]\<close>: the columns are filled in iteration order at the
  consecutive indices \<open>0 .. len(keep_idx) - 1\<close>, none left empty.
\<close>

theorem retained_draws_fill_columns:
  fixes ext :: "('f, 'r) externals"
  assumes "accepted ext a" "data_checks a = Inr vs"
    and "0 \<le> num_gfr a" "0 \<le> num_burnin a" "0 \<le> num_mcmc a"
  shows "\<exists>kidx m' tr ptrain gam lat sT.
     keep_indices a = Inr kidx \<and>
     kidx = map (\<lambda>j. num_gfr a + num_burnin a + int j * n_thin a) [0..<length kidx] \<and>
     (0 < n_thin a \<longrightarrow> set kidx = {i. num_gfr a + num_burnin a \<le> i \<and>
          i < num_gfr a + num_burnin a + num_mcmc a \<and> (i - (num_gfr a + num_burnin a)) mod n_thin a = 0}) \<and>
     (n_thin a < 0 \<longrightarrow> kidx = []) \<and>
     sorted_wrt (<) kidx \<and>
     sample ext entropy a m = Completed m' tr \<and>
     state_after ext entropy a m (nat (num_gfr a + num_burnin a + num_mcmc a)) = Some sT \<and>
     sample_counter sT + 1 = int (length kidx) \<and>
     forest_pred_train m' = Some ptrain \<and> gamma_samples m' = Some gam \<and> latent_samples m' = Some lat \<and>
     length ptrain = length kidx \<and> length gam = length kidx \<and> length lat = length kidx \<and>
     (\<forall>j<length kidx. \<exists>sj.
        state_after ext entropy a m (Suc (nat (kidx ! j))) = Some sj \<and>
        ptrain ! j = Some (predictions ext (active_forest sj) Train (length vs)) \<and>
        gam ! j = Some (get_auxiliary_data_array 2 (forest_dataset_train sj)) \<and>
        lat ! j = Some (get_auxiliary_data_array 0 (forest_dataset_train sj)) \<and>
        (\<forall>X te. X_test a = Some X \<and> transform ext (X_train a) X = Inr te \<longrightarrow>
           (\<exists>ptest. forest_pred_test m' = Some ptest \<and> length ptest = length kidx \<and>
              ptest ! j = Some (predictions ext (active_forest sj) Test (fst te)))))"
proof -
  let ?T = "nat (num_gfr a + num_burnin a + num_mcmc a)"
  let ?loc = "call_locals ext a"
  have nt: "n_thin a \<noteq> 0" using assms(1) by (auto simp: accepted_def split: sum.splits)
  from keep_indices_props [OF nt assms(3-5)] obtain kidx where
    k: "keep_indices a = Inr kidx"
    and k1: "kidx = map (\<lambda>j. num_gfr a + num_burnin a + int j * n_thin a) [0..<length kidx]"
    and k2: "0 < n_thin a \<longrightarrow> set kidx = {i. num_gfr a + num_burnin a \<le> i \<and>
          i < num_gfr a + num_burnin a + num_mcmc a \<and> (i - (num_gfr a + num_burnin a)) mod n_thin a = 0}"
    and k3: "n_thin a < 0 \<longrightarrow> kidx = []"
    and k4: "sorted_wrt (<) kidx" by blast
  have kb: "kept_before ?loc ?T = map nat kidx" by (rule kept_before_all [OF assms(1,3-5) k])
  have ki: "keep_idx ?loc = kidx" by (rule call_locals_fields(2) [OF k])
  have n: "outcome_train ?loc = vs" by (rule call_locals_fields(1) [OF assms(2)])
  from sample_draws [OF assms(1), of entropy m] obtain s m4 where
    sT: "state_after ext entropy a m ?T = Some s"
    and c: "sample ext entropy a m = Completed ((publish ?loc s m4)\<lparr>sampled := True\<rparr>) (trace s)"
    and inv: "run_inv ?loc (call_levels a) ?T s"
    and kept: "\<forall>j<length (kept_before ?loc ?T).
        \<exists>sj. state_after ext entropy a m (Suc (kept_before ?loc ?T ! j)) = Some sj \<and>
             draw_at s j = draw_of ext ?loc sj"
    by blast
  have lens: "length (train_columns s) = length kidx" "length (test_columns s) = length kidx"
    "length (gamma_columns s) = length kidx" "length (latent_columns s) = length kidx"
    "sample_counter s + 1 = int (length kidx)"
    using inv by (simp_all add: run_inv_def ki kb)
  have cols: "\<exists>sj. state_after ext entropy a m (Suc (nat (kidx ! j))) = Some sj \<and>
        train_columns s ! j = Some (predictions ext (active_forest sj) Train (length vs)) \<and>
        gamma_columns s ! j = Some (get_auxiliary_data_array 2 (forest_dataset_train sj)) \<and>
        latent_columns s ! j = Some (get_auxiliary_data_array 0 (forest_dataset_train sj)) \<and>
        (\<forall>X te. X_test a = Some X \<and> transform ext (X_train a) X = Inr te \<longrightarrow>
           (\<exists>ptest. forest_pred_test ((publish ?loc s m4)\<lparr>sampled := True\<rparr>) = Some ptest \<and>
              length ptest = length kidx \<and>
              ptest ! j = Some (predictions ext (active_forest sj) Test (fst te))))"
    if j: "j < length kidx" for j
  proof -
    from kept j kb obtain sj where sj: "state_after ext entropy a m (Suc (nat (kidx ! j))) = Some sj"
      "draw_at s j = draw_of ext ?loc sj" by auto
    have t: "\<exists>ptest. forest_pred_test ((publish ?loc s m4)\<lparr>sampled := True\<rparr>) = Some ptest \<and>
              length ptest = length kidx \<and>
              ptest ! j = Some (predictions ext (active_forest sj) Test (fst te))"
      if "X_test a = Some X" "transform ext (X_train a) X = Inr te" for X te
    proof -
      have tr: "test_rows ?loc = Some (fst te)" using that by (simp add: call_locals_def)
      then have "test_columns s ! j = Some (predictions ext (active_forest sj) Test (fst te))"
        using sj(2) by (simp add: draw_at_def draw_of_def)
      then show ?thesis using tr lens by (simp add: publish_def)
    qed
    show ?thesis using sj t n by (auto simp: draw_at_def draw_of_def)
  qed
  show ?thesis
    using k k1 k2 k3 k4 c sT lens cols
    by (intro exI [of _ kidx] exI [of _ "(publish ?loc s m4)\<lparr>sampled := True\<rparr>"] exI [of _ "trace s"]
        exI [of _ "train_columns s"] exI [of _ "gamma_columns s"] exI [of _ "latent_columns s"]
        exI [of _ s]) simp
qed

text \<open>
  C7. Positivity of the latent variables. With the latent update read as the inverse-CDF draw from
  the truncated unit-rate exponential and uniform variates strictly between 0 and 1, an accepted
  call completes and every filled column of \<open>latent_samples\<close> holds strictly positive values only
  (with non-negative iteration counts every column is filled); and at the end of every iteration of
  the chain every latent slot \<open>z_i\<close> of the store is strictly positive.
\<close>

theorem latent_samples_positive:
  fixes ext :: "('f, 'r) externals"
  assumes "accepted ext a" "\<forall>r. 0 < fst (uniform ext r) \<and> fst (uniform ext r) < 1"
  shows "\<exists>m' tr cols. sample ext entropy a m = Completed m' tr \<and> latent_samples m' = Some cols \<and>
     list_all (\<lambda>c. case c of None \<Rightarrow> True | Some col \<Rightarrow> list_all (\<lambda>z. 0 < z) col) cols \<and>
     (0 \<le> num_gfr a \<and> 0 \<le> num_burnin a \<and> 0 \<le> num_mcmc a \<longrightarrow> list_all (\<lambda>c. c \<noteq> None) cols) \<and>
     (\<forall>k. \<exists>s. state_after ext entropy a m (Suc k) = Some s \<and>
        list_all (\<lambda>z. 0 < z) (get_auxiliary_data_array 0 (forest_dataset_train s)))"
proof -
  let ?T = "nat (num_gfr a + num_burnin a + num_mcmc a)"
  let ?loc = "call_locals ext a"
  from sample_draws [OF assms(1), of entropy m] obtain s m4 where
    sT: "state_after ext entropy a m ?T = Some s"
    and c: "sample ext entropy a m = Completed ((publish ?loc s m4)\<lparr>sampled := True\<rparr>) (trace s)"
    and inv: "run_inv ?loc (call_levels a) ?T s"
    and kept: "\<forall>j<length (kept_before ?loc ?T).
        \<exists>sj. state_after ext entropy a m (Suc (kept_before ?loc ?T ! j)) = Some sj \<and>
             draw_at s j = draw_of ext ?loc sj"
    and rest: "\<forall>j. length (kept_before ?loc ?T) \<le> j \<and> j < length (keep_idx ?loc)
        \<longrightarrow> draw_at s j = (None, None, None, None)"
    by blast
  have len: "length (latent_columns s) = length (keep_idx ?loc)" using inv by (simp add: run_inv_def)
  have "case latent_columns s ! j of None \<Rightarrow> True | Some col \<Rightarrow> list_all (\<lambda>z. 0 < z) col"
    if j: "j < length (latent_columns s)" for j
  proof (cases "j < length (kept_before ?loc ?T)")
    case True
    then obtain sj where sj: "state_after ext entropy a m (Suc (kept_before ?loc ?T ! j)) = Some sj"
      "draw_at s j = draw_of ext ?loc sj" using kept by blast
    from sj(2) have "latent_columns s ! j = Some (get_auxiliary_data_array 0 (forest_dataset_train sj))"
      by (simp add: draw_at_def draw_of_def)
    then show ?thesis using state_positive [OF assms sj(1)] by simp
  next
    case False
    then have "draw_at s j = (None, None, None, None)" using rest j len by simp
    then show ?thesis by (simp add: draw_at_def)
  qed
  then have cols: "list_all (\<lambda>c. case c of None \<Rightarrow> True | Some col \<Rightarrow> list_all (\<lambda>z. 0 < z) col)
      (latent_columns s)" by (simp add: list_all_length)
  have it: "\<forall>k. \<exists>s. state_after ext entropy a m (Suc k) = Some s \<and>
        list_all (\<lambda>z. 0 < z) (get_auxiliary_data_array 0 (forest_dataset_train s))"
  proof
    fix k
    from state_after_accepted [OF assms(1), of entropy m "Suc k"] obtain s' where
      "state_after ext entropy a m (Suc k) = Some s'" by blast
    then show "\<exists>s. state_after ext entropy a m (Suc k) = Some s \<and>
        list_all (\<lambda>z. 0 < z) (get_auxiliary_data_array 0 (forest_dataset_train s))"
      using state_positive [OF assms] by blast
  qed
  have some: "list_all (\<lambda>c. c \<noteq> None) (latent_columns s)"
    if nn: "0 \<le> num_gfr a \<and> 0 \<le> num_burnin a \<and> 0 \<le> num_mcmc a"
  proof -
    obtain kidx where k: "keep_indices a = Inr kidx"
      using assms(1) by (auto simp: accepted_def keep_indices_def arange_def split: sum.splits)
    have kb: "kept_before ?loc ?T = map nat kidx"
      using kept_before_all [OF assms(1) _ _ _ k] nn by simp
    have ki: "keep_idx ?loc = kidx" by (rule call_locals_fields(2) [OF k])
    have "latent_columns s ! j \<noteq> None" if "j < length (latent_columns s)" for j
    proof -
      from that have "j < length (kept_before ?loc ?T)" using len kb ki by simp
      then obtain sj where "draw_at s j = draw_of ext ?loc sj" using kept by blast
      then show ?thesis by (simp add: draw_at_def draw_of_def)
    qed
    then show ?thesis by (simp add: list_all_length)
  qed
  show ?thesis using c cols it some by simp
qed

lemma uniform_demo: "\<forall>r. 0 < fst (uniform demo_ext r) \<and> fst (uniform demo_ext r) < 1"
  by (simp add: demo_ext_def)

theorem latent_samples_positive_witness:
  "\<exists>m' tr cols. sample demo_ext 0 demo_args init_model = Completed m' tr \<and>
     latent_samples m' = Some cols \<and>
     list_all (\<lambda>c. case c of None \<Rightarrow> True | Some col \<Rightarrow> list_all (\<lambda>z. 0 < z) col) cols \<and>
     list_all (\<lambda>c. c \<noteq> None) cols"
proof -
  have nn: "0 \<le> num_gfr demo_args \<and> 0 \<le> num_burnin demo_args \<and> 0 \<le> num_mcmc demo_args"
    by (simp add: demo_args_def)
  from latent_samples_positive [OF accepted_demo uniform_demo, of 0 init_model] nn
  show ?thesis by blast
qed

theorem retained_draws_witness:
  "\<exists>kidx m' tr ptrain. keep_indices demo_args = Inr kidx \<and> kidx = [2, 3] \<and>
     sample demo_ext 0 demo_args init_model = Completed m' tr \<and>
     forest_pred_train m' = Some ptrain \<and> length ptrain = 2 \<and>
     (\<exists>sj. state_after demo_ext 0 demo_args init_model 3 = Some sj \<and>
        ptrain ! 0 = Some (predictions demo_ext (active_forest sj) Train 2))"
proof -
  have y: "data_checks demo_args = Inr [0, 1]" by (simp add: demo_args_def data_checks_def)
  have nn: "0 \<le> num_gfr demo_args" "0 \<le> num_burnin demo_args" "0 \<le> num_mcmc demo_args"
    by (simp_all add: demo_args_def)
  note t = retained_draws_fill_columns [OF accepted_demo y nn, of 0 init_model]
  show ?thesis
    using t
    apply (elim exE conjE)
    subgoal premises p for kidx m' tr ptrain gam lat sT
    proof -
      have k: "kidx = [2, 3]" using p(1) keep_indices_demo by simp
      have l: "length ptrain = 2" using p(12) k by simp
      have "0 < length kidx" using k by simp
      with p(15) have "\<exists>sj. state_after demo_ext 0 demo_args init_model (Suc (nat (kidx ! 0))) = Some sj \<and>
          ptrain ! 0 = Some (predictions demo_ext (active_forest sj) Train (length [0::int, 1]))"
        by blast
      then have e: "\<exists>sj. state_after demo_ext 0 demo_args init_model 3 = Some sj \<and>
          ptrain ! 0 = Some (predictions demo_ext (active_forest sj) Train 2)"
        by (simp add: k numeral_2_eq_2 numeral_3_eq_3)
      show ?thesis
        by (intro exI [of _ kidx] exI [of _ m'] exI [of _ tr] exI [of _ ptrain] conjI
            p(1) k p(6) p(9) l e)
    qed
    done
qed

subsection \<open>Seeds\<close>





text \<open>Without a seed the generator of a run is the one the machine's entropy gives.\<close>

lemma unseeded_generator:
  "\<exists>s0 s1. state_after demo_ext 0 (demo_args\<lparr>seed := None\<rparr>) init_model 0 = Some s0 \<and>
     state_after demo_ext 1 (demo_args\<lparr>seed := None\<rparr>) init_model 0 = Some s1 \<and>
     cpp_rng s0 = 0 \<and> cpp_rng s1 = 1"
proof -
  have acc: "accepted demo_ext (demo_args\<lparr>seed := None\<rparr>)"
    by (simp add: accepted_def demo_ext_def demo_args_def data_checks_def weight_checks_def
        outcome_levels_def element_bits_def wrap_def)
  show ?thesis
    by (simp add: state_after_0 [OF acc] initial_sampler_eq new_sampler_def call_rng_def
        make_rng_def RNG_def)
qed



end
